theory Spec2Isabelle
  imports Complex_Main "HOL-Library.Word" "HOL-Library.Log_Nat"
begin

unbundle bit_operations_syntax

section \<open>Python values and exceptions\<close>

text \<open>
  The program is \<^verbatim>\<open>main.py\<close>: a script of slides and voice-overs is parsed, the missing
  audio is requested from a speech backend, and the slides are laid out on a timeline.

  A Python \<^verbatim>\<open>str\<close> is modelled as a \<^typ>\<open>string\<close> whose characters are the code points
  below 256 (Latin-1); the functions below are the ones of \<^verbatim>\<open>str\<close> on such strings.
  A duration or a size, a float in the source, is the rational number it stands for.
  Sizes are computed exactly. The sums of durations are exact in the loops of the section
  on the timeline, and rounded to doubles, as Python rounds them, in the section after
  it.

  Every exception the source can raise is a value of \<open>error\<close>. \<open>Unmodelled\<close> is not an
  exception: the model answers it on an input outside the fragment it covers (a scalar
  that pydantic would coerce from another type), and no theorem says anything there.
\<close>

datatype error =
    KeyError string
  | IndexError
  | ValidationError
  | ZeroDivisionError
  | FileNotFoundError string
  | CalledProcessError int
  | Unmodelled

text \<open>\<^verbatim>\<open>str.isspace\<close> on one character: the white space of Unicode below 256.\<close>

definition isspace :: "char \<Rightarrow> bool" where
  "isspace c =
     (let n = (of_char c :: nat)
      in (9 \<le> n \<and> n \<le> 13) \<or> (28 \<le> n \<and> n \<le> 32) \<or> n = 133 \<or> n = 160)"

text \<open>\<^verbatim>\<open>str.strip()\<close>: leading and trailing white space removed.\<close>

definition strip :: "string \<Rightarrow> string" where
  "strip s = rev (dropWhile isspace (rev (dropWhile isspace s)))"

text \<open>\<^verbatim>\<open>s.replace(old, new)\<close> for a one-character \<^verbatim>\<open>old\<close>.\<close>

definition replace :: "char \<Rightarrow> string \<Rightarrow> string \<Rightarrow> string" where
  "replace old new s = concat (map (\<lambda>c. if c = old then new else [c]) s)"

text \<open>
  \<^verbatim>\<open>xml.sax.saxutils.escape(data)\<close> with no extra entities: three passes, the ampersand
  first.
\<close>

definition escape :: "string \<Rightarrow> string" where
  "escape data =
     replace (CHR ''<'') ''&lt;''
       (replace (CHR ''>'') ''&gt;''
         (replace (CHR ''&'') ''&amp;'' data))"

section \<open>SHA-1 and UTF-8\<close>

text \<open>
  \<^verbatim>\<open>hashlib.sha1\<close> (FIPS 180-4) on a list of bytes, and \<^verbatim>\<open>str.encode("utf8")\<close> on the
  strings of this model: a code point below 128 is one byte, one from 128 to 255 is two.
\<close>

type_synonym byte = "8 word"
type_synonym u32 = "32 word"

definition encode_utf8_char :: "char \<Rightarrow> byte list" where
  "encode_utf8_char c =
     (let n = (of_char c :: nat)
      in if n < 128 then [of_nat n]
         else [of_nat (192 + n div 64), of_nat (128 + n mod 64)])"

definition encode_utf8 :: "string \<Rightarrow> byte list" where
  "encode_utf8 s = concat (map encode_utf8_char s)"

definition be64 :: "nat \<Rightarrow> byte list" where
  "be64 n = map (\<lambda>i. of_nat (n div 256 ^ (7 - i))) [0..<8]"

definition sha1_pad :: "byte list \<Rightarrow> byte list" where
  "sha1_pad m =
     m @ [0x80] @ replicate ((119 - length m mod 64) mod 64) 0 @ be64 (8 * length m)"

fun be_words :: "byte list \<Rightarrow> u32 list" where
  "be_words (a # b # c # d # bs) =
     (push_bit 24 (ucast a) OR push_bit 16 (ucast b) OR push_bit 8 (ucast c) OR ucast d)
       # be_words bs"
| "be_words _ = []"

fun chunks :: "nat \<Rightarrow> 'a list \<Rightarrow> 'a list list" where
  "chunks n [] = []"
| "chunks n (x # xs) =
     (if n = 0 then [] else take n (x # xs) # chunks n (drop n (x # xs)))"

fun sha1_schedule :: "nat \<Rightarrow> u32 list \<Rightarrow> u32 list" where
  "sha1_schedule 0 w = w"
| "sha1_schedule (Suc k) w =
     (let t = length w
      in sha1_schedule k
           (w @ [word_rotl 1 (w ! (t - 3) XOR w ! (t - 8) XOR w ! (t - 14) XOR w ! (t - 16))]))"

type_synonym sha1_state = "u32 \<times> u32 \<times> u32 \<times> u32 \<times> u32"

definition sha1_f :: "nat \<Rightarrow> u32 \<Rightarrow> u32 \<Rightarrow> u32 \<Rightarrow> u32" where
  "sha1_f t b c d =
     (if t < 20 then (b AND c) OR (NOT b AND d)
      else if t < 40 then b XOR c XOR d
      else if t < 60 then (b AND c) OR (b AND d) OR (c AND d)
      else b XOR c XOR d)"

definition sha1_k :: "nat \<Rightarrow> u32" where
  "sha1_k t =
     (if t < 20 then 0x5A827999
      else if t < 40 then 0x6ED9EBA1
      else if t < 60 then 0x8F1BBCDC
      else 0xCA62C1D6)"

definition sha1_round :: "sha1_state \<Rightarrow> nat \<times> u32 \<Rightarrow> sha1_state" where
  "sha1_round s tw =
     (case s of (a, b, c, d, e) \<Rightarrow>
        (word_rotl 5 a + sha1_f (fst tw) b c d + e + sha1_k (fst tw) + snd tw,
         a, word_rotl 30 b, c, d))"

definition sha1_block :: "sha1_state \<Rightarrow> byte list \<Rightarrow> sha1_state" where
  "sha1_block h blk =
     (let w = sha1_schedule 64 (be_words blk)
      in case (h, foldl sha1_round h (zip [0..<80] w)) of
           ((h0, h1, h2, h3, h4), (a, b, c, d, e)) \<Rightarrow>
             (h0 + a, h1 + b, h2 + c, h3 + d, h4 + e))"

definition sha1_init :: sha1_state where
  "sha1_init = (0x67452301, 0xEFCDAB89, 0x98BADCFE, 0x10325476, 0xC3D2E1F0)"

definition sha1 :: "byte list \<Rightarrow> u32 list" where
  "sha1 m =
     (case foldl sha1_block sha1_init (chunks 64 (sha1_pad m)) of
        (h0, h1, h2, h3, h4) \<Rightarrow> [h0, h1, h2, h3, h4])"

definition hex_digit :: "nat \<Rightarrow> char" where
  "hex_digit n = (if n < 10 then char_of (48 + n) else char_of (87 + n))"

definition hex_u32 :: "u32 \<Rightarrow> string" where
  "hex_u32 w = map (\<lambda>i. hex_digit (unat (drop_bit (4 * (7 - i)) w) mod 16)) [0..<8]"

text \<open>\<^verbatim>\<open>hashlib.sha1(m).hexdigest()\<close>: forty lower-case hexadecimal digits.\<close>

definition sha1_hexdigest :: "byte list \<Rightarrow> string" where
  "sha1_hexdigest m = concat (map hex_u32 (sha1 m))"

section \<open>Voice-overs\<close>

record VoiceOver =
  vo_character :: string
  vo_voice :: string
  vo_text :: string
  vo_end_pause :: string

text \<open>
  The constructor \<^verbatim>\<open>VoiceOver(character=, voice=, text=, end_pause=)\<close> on strings: the
  validator of \<^verbatim>\<open>text\<close> strips it, and \<^verbatim>\<open>end_pause\<close> is \<^verbatim>\<open>"500ms"\<close> when it is not given.
\<close>

definition validate_text :: "string \<Rightarrow> string" where
  "validate_text v = strip v"

definition new_VoiceOver :: "string \<Rightarrow> string \<Rightarrow> string \<Rightarrow> string option \<Rightarrow> VoiceOver" where
  "new_VoiceOver c v t p =
     \<lparr>vo_character = c, vo_voice = v, vo_text = validate_text t,
      vo_end_pause = (case p of None \<Rightarrow> ''500ms'' | Some e \<Rightarrow> e)\<rparr>"

definition clean_text :: "VoiceOver \<Rightarrow> string" where
  "clean_text vo = replace (CHR 0x0A) '' '' (vo_text vo)"

definition saml_text :: "VoiceOver \<Rightarrow> string" where
  "saml_text vo =
     ''<speak>'' @ escape (clean_text vo) @ ''<break time='' @ [CHR 0x27] @ vo_end_pause vo
       @ [CHR 0x27] @ ''/></speak>''"

text \<open>The bytes fed to the hash by \<^verbatim>\<open>filename_base\<close>, update by update.\<close>

definition filename_bytes :: "VoiceOver \<Rightarrow> byte list" where
  "filename_bytes vo =
     encode_utf8 (vo_character vo) @ encode_utf8 ''|'' @ encode_utf8 (vo_voice vo)
       @ encode_utf8 ''|'' @ encode_utf8 (saml_text vo)"

definition filename_base :: "VoiceOver \<Rightarrow> string" where
  "filename_base vo = sha1_hexdigest (filename_bytes vo)"

text \<open>
  One character of the escaped text, as the documentation of \<^verbatim>\<open>escape\<close> words it: the
  ampersand and the two angle brackets become entity references, every other character
  stays. \<open>escape_entities\<close> below shows that the three passes compute exactly this.
\<close>

definition entity_of :: "char \<Rightarrow> string" where
  "entity_of c =
     (if c = CHR ''&'' then ''&amp;''
      else if c = CHR ''<'' then ''&lt;''
      else if c = CHR ''>'' then ''&gt;''
      else [c])"

section \<open>Layout anchors\<close>

text \<open>
  The class \<^verbatim>\<open>Anchors\<close>. \<^verbatim>\<open>int(x)\<close> truncates; the products are positive, so it is the
  floor. (In floating point \<^verbatim>\<open>480 * 0.8\<close>, \<^verbatim>\<open>720 * 0.05\<close>, \<^verbatim>\<open>720 * 0.1\<close> and \<^verbatim>\<open>480 * 0.2\<close>
  round to the whole numbers 384, 36, 72 and 96.)
\<close>

definition anchors_width :: int where "anchors_width = 720"
definition anchors_height :: int where "anchors_height = 480"

definition slide_height :: int where
  "slide_height = \<lfloor>(of_int anchors_height :: rat) * (8 / 10)\<rfloor>"

definition slide_left :: int where
  "slide_left = \<lfloor>(of_int anchors_width :: rat) * (5 / 100)\<rfloor>"

definition slide_width :: int where
  "slide_width = anchors_width - slide_left * 2"

definition slide_top :: int where "slide_top = 0"

definition caption_frame_top :: int where "caption_frame_top = slide_height"
definition caption_frame_left :: int where "caption_frame_left = 0"

definition caption_frame_height :: int where
  "caption_frame_height = anchors_height - caption_frame_top"

definition caption_frame_width :: int where "caption_frame_width = anchors_width"

definition caption_top :: int where "caption_top = slide_height + 10"

definition caption_height :: int where
  "caption_height = caption_frame_height - 10 * 2"

definition caption_left :: int where
  "caption_left = \<lfloor>(of_int anchors_width :: rat) * (1 / 10)\<rfloor>"

definition caption_width :: int where
  "caption_width = anchors_width - caption_left * 2"

definition left_character_height :: int where
  "left_character_height = \<lfloor>(of_int anchors_height :: rat) * (2 / 10)\<rfloor>"

definition left_character_left :: int where "left_character_left = 0"

definition left_character_top :: int where
  "left_character_top = slide_height - left_character_height"

definition left_character_width :: int where
  "left_character_width = left_character_height"

section \<open>Files and clips\<close>

text \<open>
  What the program reads from and writes to the disk: the audio files with their playback
  length (\<^verbatim>\<open>AudioFileClip(path).duration\<close>), the images with their pixel size
  (\<^verbatim>\<open>Image.open(path).size\<close>), the code snippets, and the videos written. The three
  directories are relative to the program's own.
\<close>

record audio_clip =
  ac_path :: string
  ac_start :: rat
  ac_duration :: rat

datatype video_kind = TextClip | ImageClip | ColorClip

text \<open>
  A moviepy video clip: a new clip starts at 0 and has no duration until \<^verbatim>\<open>set_duration\<close>.
\<close>

record video_clip =
  vc_kind :: video_kind
  vc_source :: string
  vc_size :: "rat \<times> rat"
  vc_pos :: "rat \<times> rat"
  vc_start :: rat
  vc_duration :: "rat option"

record composite =
  cvc_clips :: "video_clip list"
  cvc_audio :: "audio_clip list"
  cvc_duration :: rat

record world =
  audio_files :: "string \<rightharpoonup> rat"
  image_files :: "string \<rightharpoonup> int \<times> int"
  code_files :: "string \<rightharpoonup> string"
  video_files :: "string \<rightharpoonup> composite"

definition AUDIO_ROOT :: string where "AUDIO_ROOT = ''audio''"
definition CODE_ROOT :: string where "CODE_ROOT = ''codes''"
definition IMAGE_ROOT :: string where "IMAGE_ROOT = ''images''"

definition set_start :: "rat \<Rightarrow> video_clip \<Rightarrow> video_clip" where
  "set_start t c = c\<lparr>vc_start := t\<rparr>"

definition set_duration :: "rat \<Rightarrow> video_clip \<Rightarrow> video_clip" where
  "set_duration d c = c\<lparr>vc_duration := Some d\<rparr>"

definition get_filepath :: "VoiceOver \<Rightarrow> string \<Rightarrow> string" where
  "get_filepath vo parent = parent @ ''/'' @ filename_base vo @ ''.wav''"

text \<open>
  The CSV writer is modelled by the rows it has been given; its text is empty exactly when
  no row was written, since every row ends with the line terminator.
\<close>

definition write_audio_request :: "world \<Rightarrow> VoiceOver \<Rightarrow> string list list \<Rightarrow> string \<Rightarrow> string list list" where
  "write_audio_request w vo writer parent =
     (let path = get_filepath vo parent
      in if audio_files w path \<noteq> None then writer
         else writer @ [[filename_base vo, vo_voice vo, saml_text vo]])"

definition as_audio_clip :: "world \<Rightarrow> VoiceOver \<Rightarrow> string \<Rightarrow> error + audio_clip" where
  "as_audio_clip w vo parent =
     (let path = get_filepath vo parent
      in case audio_files w path of
           None \<Rightarrow> Inl (FileNotFoundError path)
         | Some d \<Rightarrow> Inr \<lparr>ac_path = path, ac_start = 0, ac_duration = d\<rparr>)"

definition as_caption :: "VoiceOver \<Rightarrow> video_clip" where
  "as_caption vo =
     \<lparr>vc_kind = TextClip, vc_source = clean_text vo,
      vc_size = (of_int caption_width, of_int caption_height),
      vc_pos = (of_int caption_left, of_int caption_top),
      vc_start = 0, vc_duration = None\<rparr>"

section \<open>Slides\<close>

text \<open>
  The four classes over \<^verbatim>\<open>SlideBase\<close>: the variant with its own fields
  (\<^verbatim>\<open>image\<close>, \<^verbatim>\<open>zoom\<close>, \<^verbatim>\<open>zoom_to_fit\<close>; \<^verbatim>\<open>code\<close>, \<^verbatim>\<open>ext\<close>; \<^verbatim>\<open>text\<close>, \<^verbatim>\<open>font_size\<close>), and the
  two fields every slide has.
\<close>

datatype slide_variant =
    EmptySlide
  | ImageSlide string "rat option" bool
  | CodeSlide string string
  | TextSlide string rat

record slide =
  variant :: slide_variant
  voice_overs :: "VoiceOver list"
  min_duration :: "int option"

text \<open>
  Lines 203 to 226 of \<^verbatim>\<open>ImageSlide.fit\<close>: the size the image is resized to. \<^verbatim>\<open>/\<close> is true
  division and raises on a zero divisor.
\<close>

definition fit_size :: "int \<Rightarrow> int \<Rightarrow> int \<Rightarrow> int \<Rightarrow> bool \<Rightarrow> rat option \<Rightarrow> error + rat \<times> rat" where
  "fit_size image_width image_height frame_width frame_height zoom_to_fit zoom =
     (case zoom of
        Some z \<Rightarrow> Inr (of_int image_width * z, of_int image_height * z)
      | None \<Rightarrow>
          if image_width > frame_width \<or> image_height > frame_height then
            if frame_width = 0 \<or> frame_height = 0 then Inl ZeroDivisionError
            else if (of_int image_width :: rat) / of_int frame_width
                      > of_int image_height / of_int frame_height then
              if image_width = 0 then Inl ZeroDivisionError
              else Inr (of_int frame_width,
                        of_int (frame_width * image_height) / of_int image_width)
            else
              if image_height = 0 then Inl ZeroDivisionError
              else Inr (of_int (frame_height * image_width) / of_int image_height,
                        of_int frame_height)
          else if zoom_to_fit then
            if frame_width = 0 \<or> frame_height = 0 then Inl ZeroDivisionError
            else if (of_int image_width :: rat) / of_int frame_width
                      > of_int image_height / of_int frame_height then
              if image_height = 0 then Inl ZeroDivisionError
              else Inr (of_int (frame_height * image_width) / of_int image_height,
                        of_int frame_height)
            else
              if image_width = 0 then Inl ZeroDivisionError
              else Inr (of_int frame_width,
                        of_int (frame_width * image_height) / of_int image_width)
          else Inr (of_int image_width, of_int image_height))"

definition fit :: "world \<Rightarrow> string \<Rightarrow> int \<Rightarrow> int \<Rightarrow> int \<Rightarrow> int \<Rightarrow> bool \<Rightarrow> rat option \<Rightarrow> error + video_clip" where
  "fit w image_path frame_x frame_y frame_width frame_height zoom_to_fit zoom =
     (case image_files w image_path of
        None \<Rightarrow> Inl (FileNotFoundError image_path)
      | Some (image_width, image_height) \<Rightarrow>
          (case fit_size image_width image_height frame_width frame_height zoom_to_fit zoom of
             Inl e \<Rightarrow> Inl e
           | Inr (width, height) \<Rightarrow>
               let x = of_int frame_x + (of_int frame_width - width) * (1 / 2);
                   y = of_int frame_y + (of_int frame_height - height) * (1 / 2)
               in Inr \<lparr>vc_kind = ImageClip, vc_source = image_path, vc_size = (width, height),
                        vc_pos = (x, y), vc_start = 0, vc_duration = None\<rparr>))"

definition code_filename_base :: "string \<Rightarrow> string \<Rightarrow> string" where
  "code_filename_base code ext =
     sha1_hexdigest (encode_utf8 ext @ encode_utf8 ''|'' @ encode_utf8 code)"

definition code_filepath :: "string \<Rightarrow> string \<Rightarrow> string \<Rightarrow> string" where
  "code_filepath code ext parent = parent @ ''/'' @ code_filename_base code ext @ ''.'' @ ext"

text \<open>\<^verbatim>\<open>as_clip\<close> of each class; \<open>None\<close> is the \<^verbatim>\<open>None\<close> an empty slide returns.\<close>

definition as_clip :: "world \<Rightarrow> slide \<Rightarrow> error + video_clip option" where
  "as_clip w s =
     (case variant s of
        EmptySlide \<Rightarrow> Inr None
      | ImageSlide img zoom zoom_to_fit \<Rightarrow>
          map_sum id Some
            (fit w img slide_left slide_top slide_width slide_height zoom_to_fit zoom)
      | CodeSlide code ext \<Rightarrow>
          map_sum id Some
            (fit w (IMAGE_ROOT @ ''/'' @ code_filename_base code ext @ ''.png'')
               slide_left slide_top slide_width slide_height False None)
      | TextSlide txt font_size \<Rightarrow>
          Inr (Some \<lparr>vc_kind = TextClip, vc_source = txt,
                      vc_size = (of_int slide_width, of_int slide_height),
                      vc_pos = (of_int slide_left, of_int slide_top),
                      vc_start = 0, vc_duration = None\<rparr>))"

text \<open>\<^verbatim>\<open>prepare\<close>: a code slide writes its snippet unless the file is there.\<close>

definition prepare :: "slide \<Rightarrow> world \<Rightarrow> world" where
  "prepare s w =
     (case variant s of
        CodeSlide code ext \<Rightarrow>
          (let path = code_filepath code ext CODE_ROOT
           in if code_files w path \<noteq> None then w
              else w\<lparr>code_files := (code_files w)(path \<mapsto> code)\<rparr>)
      | _ \<Rightarrow> w)"

section \<open>The script and its parser\<close>

text \<open>
  A script entry is a YAML mapping: its keys, in the order of the document, with their
  values. The model covers the entries whose scalars have the type of the field they
  fill; where pydantic would convert a scalar of another type the answer is \<open>Unmodelled\<close>.
  Keys are strings and are distinct, as in a Python \<^verbatim>\<open>dict\<close>; a key pydantic does not know is
  ignored.
\<close>

datatype yaml = YStr string | YInt int | YFloat rat | YBool bool | YNull | YOther

type_synonym entry = "(string \<times> yaml) list"

record Character =
  ch_image :: string
  ch_voice :: string

record Script =
  script_slides :: "entry list"
  script_characters :: "(string \<times> Character) list"

definition has_key :: "string \<Rightarrow> entry \<Rightarrow> bool" where
  "has_key k item = (k \<in> set (map fst item))"

text \<open>The fields of the pydantic models: a required string, and the optional ones.\<close>

definition str_field :: "yaml option \<Rightarrow> error + string" where
  "str_field v =
     (case v of
        None \<Rightarrow> Inl ValidationError
      | Some (YStr s) \<Rightarrow> Inr s
      | Some YNull \<Rightarrow> Inl ValidationError
      | Some YOther \<Rightarrow> Inl ValidationError
      | Some _ \<Rightarrow> Inl Unmodelled)"

definition opt_int_field :: "yaml option \<Rightarrow> error + int option" where
  "opt_int_field v =
     (case v of
        None \<Rightarrow> Inr None
      | Some YNull \<Rightarrow> Inr None
      | Some (YInt i) \<Rightarrow> Inr (Some i)
      | Some YOther \<Rightarrow> Inl ValidationError
      | Some _ \<Rightarrow> Inl Unmodelled)"

definition opt_float_field :: "yaml option \<Rightarrow> error + rat option" where
  "opt_float_field v =
     (case v of
        None \<Rightarrow> Inr None
      | Some YNull \<Rightarrow> Inr None
      | Some (YFloat r) \<Rightarrow> Inr (Some r)
      | Some (YInt i) \<Rightarrow> Inr (Some (of_int i))
      | Some YOther \<Rightarrow> Inl ValidationError
      | Some _ \<Rightarrow> Inl Unmodelled)"

definition float_field :: "rat \<Rightarrow> yaml option \<Rightarrow> error + rat" where
  "float_field dflt v =
     (case v of
        None \<Rightarrow> Inr dflt
      | Some (YFloat r) \<Rightarrow> Inr r
      | Some (YInt i) \<Rightarrow> Inr (of_int i)
      | Some YNull \<Rightarrow> Inl ValidationError
      | Some YOther \<Rightarrow> Inl ValidationError
      | Some _ \<Rightarrow> Inl Unmodelled)"

definition bool_field :: "bool \<Rightarrow> yaml option \<Rightarrow> error + bool" where
  "bool_field dflt v =
     (case v of
        None \<Rightarrow> Inr dflt
      | Some (YBool b) \<Rightarrow> Inr b
      | Some YNull \<Rightarrow> Inl ValidationError
      | Some YOther \<Rightarrow> Inl ValidationError
      | Some _ \<Rightarrow> Inl Unmodelled)"

text \<open>
  The fields of \<^verbatim>\<open>SlideBase\<close>: \<^verbatim>\<open>voice_overs\<close> is a new empty list unless the entry gives
  one (not modelled), \<^verbatim>\<open>min_duration\<close> is optional.
\<close>

definition SlideBase_parse_obj :: "slide_variant \<Rightarrow> entry \<Rightarrow> error + slide" where
  "SlideBase_parse_obj v item =
     (if has_key ''voice_overs'' item then Inl Unmodelled
      else case opt_int_field (map_of item ''min_duration'') of
             Inl e \<Rightarrow> Inl e
           | Inr m \<Rightarrow> Inr \<lparr>variant = v, voice_overs = [], min_duration = m\<rparr>)"

definition ImageSlide_parse_obj :: "entry \<Rightarrow> error + slide" where
  "ImageSlide_parse_obj item =
     (case str_field (map_of item ''image'') of
        Inl e \<Rightarrow> Inl e
      | Inr img \<Rightarrow>
          (case opt_float_field (map_of item ''zoom'') of
             Inl e \<Rightarrow> Inl e
           | Inr zoom \<Rightarrow>
               (case bool_field False (map_of item ''zoom_to_fit'') of
                  Inl e \<Rightarrow> Inl e
                | Inr zoom_to_fit \<Rightarrow>
                    SlideBase_parse_obj (ImageSlide img zoom zoom_to_fit) item)))"

definition TextSlide_parse_obj :: "entry \<Rightarrow> error + slide" where
  "TextSlide_parse_obj item =
     (case str_field (map_of item ''text'') of
        Inl e \<Rightarrow> Inl e
      | Inr txt \<Rightarrow>
          (case float_field 25 (map_of item ''font_size'') of
             Inl e \<Rightarrow> Inl e
           | Inr font_size \<Rightarrow> SlideBase_parse_obj (TextSlide txt font_size) item))"

definition CodeSlide_parse_obj :: "entry \<Rightarrow> error + slide" where
  "CodeSlide_parse_obj item =
     (case str_field (map_of item ''code'') of
        Inl e \<Rightarrow> Inl e
      | Inr code \<Rightarrow>
          (case str_field (map_of item ''ext'') of
             Inl e \<Rightarrow> Inl e
           | Inr ext \<Rightarrow> SlideBase_parse_obj (CodeSlide code ext) item))"

definition new_EmptySlide :: slide where
  "new_EmptySlide = \<lparr>variant = EmptySlide, voice_overs = [], min_duration = None\<rparr>"

text \<open>
  The state of the loop of \<^verbatim>\<open>parse_slides\<close>: the list \<^verbatim>\<open>slides\<close>, and \<^verbatim>\<open>current_item\<close> as the
  index in that list of the object it refers to, so that appending a voice-over to
  \<^verbatim>\<open>current_item.voice_overs\<close> changes the slide in the list.
\<close>

type_synonym parse_state = "slide list \<times> nat"

definition start_slide :: "parse_state \<Rightarrow> error + slide \<Rightarrow> error + parse_state" where
  "start_slide st r =
     (case r of
        Inl e \<Rightarrow> Inl e
      | Inr current_item \<Rightarrow> Inr (fst st @ [current_item], length (fst st)))"

definition append_voice_over :: "parse_state \<Rightarrow> VoiceOver \<Rightarrow> parse_state" where
  "append_voice_over st vo =
     (case st of (slides, cur) \<Rightarrow>
        (slides[cur := (slides ! cur)\<lparr>voice_overs := voice_overs (slides ! cur) @ [vo]\<rparr>], cur))"

text \<open>
  One turn of the loop. In the last branch \<^verbatim>\<open>list(item.items())[0]\<close> raises on an empty
  mapping, \<^verbatim>\<open>self.characters[key]\<close> raises on an unknown key, and both are evaluated before
  the constructor validates the text.
\<close>

definition parse_item :: "(string \<times> Character) list \<Rightarrow> parse_state \<Rightarrow> entry \<Rightarrow> error + parse_state" where
  "parse_item characters st item =
     (if has_key ''image'' item then start_slide st (ImageSlide_parse_obj item)
      else if has_key ''text'' item then start_slide st (TextSlide_parse_obj item)
      else if has_key ''code'' item then start_slide st (CodeSlide_parse_obj item)
      else case item of
             [] \<Rightarrow> Inl IndexError
           | (key, val) # _ \<Rightarrow>
               (case map_of characters key of
                  None \<Rightarrow> Inl (KeyError key)
                | Some ch \<Rightarrow>
                    (case str_field (Some val) of
                       Inl e \<Rightarrow> Inl e
                     | Inr txt \<Rightarrow>
                         Inr (append_voice_over st
                                (new_VoiceOver key (ch_voice ch) txt None)))))"

fun parse_loop :: "(string \<times> Character) list \<Rightarrow> parse_state \<Rightarrow> entry list \<Rightarrow> error + parse_state" where
  "parse_loop characters st [] = Inr st"
| "parse_loop characters st (item # items) =
     (case parse_item characters st item of
        Inl e \<Rightarrow> Inl e
      | Inr st' \<Rightarrow> parse_loop characters st' items)"

definition parse_slides :: "Script \<Rightarrow> error + slide list" where
  "parse_slides script =
     map_sum id fst
       (parse_loop (script_characters script) ([new_EmptySlide], 0) (script_slides script))"

section \<open>Requesting the audio\<close>

text \<open>
  The two external programs, \<^verbatim>\<open>mimic3\<close> (given the rows on its standard input) and
  \<^verbatim>\<open>make\<close>: each returns its exit status and leaves the files as it likes.
  \<^verbatim>\<open>subprocess.run\<close> raises on a status other than 0 only when \<^verbatim>\<open>check=True\<close>.
\<close>

record backends =
  run_mimic3 :: "string list list \<Rightarrow> world \<Rightarrow> int \<times> world"
  run_make :: "world \<Rightarrow> int \<times> world"

definition subprocess_run :: "bool \<Rightarrow> int \<times> world \<Rightarrow> error + world" where
  "subprocess_run check r =
     (if check \<and> fst r \<noteq> 0 then Inl (CalledProcessError (fst r)) else Inr (snd r))"

text \<open>The two nested loops of \<^verbatim>\<open>generate_audio\<close>, over the rows written so far.\<close>

definition audio_requests :: "world \<Rightarrow> slide list \<Rightarrow> string list list" where
  "audio_requests w slides =
     fold (\<lambda>slide writer.
             fold (\<lambda>voice_over writer. write_audio_request w voice_over writer AUDIO_ROOT)
               (voice_overs slide) writer)
       slides []"

definition generate_audio :: "backends \<Rightarrow> world \<Rightarrow> slide list \<Rightarrow> error + world" where
  "generate_audio env w slides =
     (let rows = audio_requests w slides
      in if rows = [] then Inr w
         else subprocess_run False (run_mimic3 env rows w))"

section \<open>The timeline\<close>

text \<open>
  The loops of \<^verbatim>\<open>main\<close>. The inner one runs over the voice-overs of a slide and carries
  \<^verbatim>\<open>video_clips\<close>, \<^verbatim>\<open>audio_clips\<close>, \<^verbatim>\<open>slide_duration\<close> and \<^verbatim>\<open>caption_start\<close>; the outer one
  runs over the slides and carries the two lists and \<^verbatim>\<open>last_clip_end\<close>.
\<close>

type_synonym voice_over_state = "video_clip list \<times> audio_clip list \<times> rat \<times> rat"
type_synonym slide_state = "video_clip list \<times> audio_clip list \<times> rat"

fun voice_over_loop :: "world \<Rightarrow> VoiceOver list \<Rightarrow> voice_over_state \<Rightarrow> error + voice_over_state" where
  "voice_over_loop w [] st = Inr st"
| "voice_over_loop w (voice_over # rest) (video_clips, audio_clips, slide_duration, caption_start) =
     (case as_audio_clip w voice_over AUDIO_ROOT of
        Inl e \<Rightarrow> Inl e
      | Inr audio_clip \<Rightarrow>
          let voice_over_duration = ac_duration audio_clip;
              audio_clips = audio_clips @ [audio_clip\<lparr>ac_start := caption_start\<rparr>];
              caption_clip =
                set_duration voice_over_duration (set_start caption_start (as_caption voice_over));
              video_clips = video_clips @ [caption_clip]
          in voice_over_loop w rest
               (video_clips, audio_clips, slide_duration + voice_over_duration,
                caption_start + voice_over_duration))"

text \<open>
  Lines 346 and 347: \<^verbatim>\<open>slide_duration\<close> is raised to the \<^verbatim>\<open>min_duration\<close> the slide declares.
\<close>

definition floor_duration :: "int option \<Rightarrow> rat \<Rightarrow> rat" where
  "floor_duration declared slide_duration =
     (case declared of
        None \<Rightarrow> slide_duration
      | Some m \<Rightarrow> if slide_duration < of_int m then of_int m else slide_duration)"

definition compose_slide :: "world \<Rightarrow> slide_state \<Rightarrow> slide \<Rightarrow> error + slide_state" where
  "compose_slide w st slide =
     (case st of (video_clips, audio_clips, last_clip_end) \<Rightarrow>
        (case voice_over_loop w (voice_overs slide) (video_clips, audio_clips, 0, last_clip_end) of
           Inl e \<Rightarrow> Inl e
         | Inr (video_clips, audio_clips, slide_duration, caption_start) \<Rightarrow>
             let slide_duration = floor_duration (min_duration slide) slide_duration
             in (case as_clip w slide of
                   Inl e \<Rightarrow> Inl e
                 | Inr maybe_slide_clip \<Rightarrow>
                     let video_clips =
                           (case maybe_slide_clip of
                              None \<Rightarrow> video_clips
                            | Some c \<Rightarrow>
                                video_clips
                                  @ [set_start last_clip_end (set_duration slide_duration c)])
                     in Inr (video_clips, audio_clips, last_clip_end + slide_duration))))"

fun slides_loop :: "world \<Rightarrow> slide_state \<Rightarrow> slide list \<Rightarrow> error + slide_state" where
  "slides_loop w st [] = Inr st"
| "slides_loop w st (slide # rest) =
     (case compose_slide w st slide of
        Inl e \<Rightarrow> Inl e
      | Inr st' \<Rightarrow> slides_loop w st' rest)"

definition caption_background :: "rat \<Rightarrow> video_clip" where
  "caption_background last_clip_end =
     set_duration last_clip_end
       \<lparr>vc_kind = ColorClip, vc_source = [],
        vc_size = (of_int caption_frame_width, of_int caption_frame_height),
        vc_pos = (of_int caption_frame_left, of_int caption_frame_top),
        vc_start = 0, vc_duration = None\<rparr>"

fun characters_loop :: "world \<Rightarrow> rat \<Rightarrow> video_clip list \<Rightarrow> Character list \<Rightarrow> error + video_clip list" where
  "characters_loop w last_clip_end video_clips [] = Inr video_clips"
| "characters_loop w last_clip_end video_clips (character # rest) =
     (case fit w (ch_image character) left_character_left left_character_top
             left_character_width left_character_height False None of
        Inl e \<Rightarrow> Inl e
      | Inr c \<Rightarrow>
          characters_loop w last_clip_end (video_clips @ [set_duration last_clip_end c]) rest)"

text \<open>
  Lines 322 to 387 of \<^verbatim>\<open>main\<close> without the external calls: the clips of the slides, the
  background of the captions put first, the portraits put last, and the total duration.
\<close>

definition compose :: "world \<Rightarrow> (string \<times> Character) list \<Rightarrow> slide list \<Rightarrow> error + composite" where
  "compose w characters slides =
     (case slides_loop w ([], [], 0) slides of
        Inl e \<Rightarrow> Inl e
      | Inr (video_clips, audio_clips, last_clip_end) \<Rightarrow>
          (case characters_loop w last_clip_end
                  (caption_background last_clip_end # video_clips) (map snd characters) of
             Inl e \<Rightarrow> Inl e
           | Inr video_clips \<Rightarrow>
               Inr \<lparr>cvc_clips = video_clips, cvc_audio = audio_clips,
                    cvc_duration = last_clip_end\<rparr>))"

text \<open>
  \<^verbatim>\<open>main\<close>, from the parsed YAML document on: the slides, the audio, \<^verbatim>\<open>prepare\<close> of every
  slide, \<^verbatim>\<open>make\<close> with \<^verbatim>\<open>check=True\<close>, the timeline, and the video written.
\<close>

definition main :: "backends \<Rightarrow> world \<Rightarrow> Script \<Rightarrow> string \<Rightarrow> error + world" where
  "main env w script output_path =
     (case parse_slides script of
        Inl e \<Rightarrow> Inl e
      | Inr slides \<Rightarrow>
          (case generate_audio env w slides of
             Inl e \<Rightarrow> Inl e
           | Inr w \<Rightarrow>
               (case subprocess_run True (run_make env (fold prepare slides w)) of
                  Inl e \<Rightarrow> Inl e
                | Inr w \<Rightarrow>
                    (case compose w (script_characters script) slides of
                       Inl e \<Rightarrow> Inl e
                     | Inr cvc \<Rightarrow>
                         Inr (w\<lparr>video_files := (video_files w)(output_path \<mapsto> cvc)\<rparr>)))))"

section \<open>The timeline in double precision\<close>

text \<open>
  The durations of \<^verbatim>\<open>main\<close> are Python floats. The length of an audio file is one, and
  lines 343, 344 and 355 add such lengths with \<^verbatim>\<open>+=\<close>: every sum is rounded to the nearest
  double, a tie to the double with an even mantissa. \<open>float_round x\<close> is the double nearest
  to the rational \<open>x\<close>. For \<open>2 ^ e \<le> \<bar>x\<bar> < 2 ^ (e + 1)\<close> it is a multiple of the
  quantum \<open>2 ^ (e - 52)\<close>, and a multiple of \<open>2 ^ - 1074\<close> below \<open>2 ^ - 1022\<close>, where the
  doubles are subnormal. \<open>fadd\<close> is \<^verbatim>\<open>+\<close> on floats.

  Two things are left out. The exponent has no upper bound: a sum of \<open>2 ^ 1024\<close> or more,
  which Python rounds to infinity, is a finite number here. And the ints of \<^verbatim>\<open>main\<close>, the
  \<^verbatim>\<open>0\<close> the cursors start from and a \<^verbatim>\<open>min_duration\<close>, are the floats of the same value:
  Python adds two ints exactly and turns an int into the nearest float before it adds it
  to a float, and both agree with \<open>fadd\<close> as long as the sum is below \<open>2 ^ 53\<close>. So the
  loops below compute what \<^verbatim>\<open>main\<close> computes on every timeline shorter than \<open>2 ^ 53\<close>
  seconds.
\<close>

definition round_half_even :: "rat \<Rightarrow> int" where
  "round_half_even x =
     (let f = \<lfloor>x\<rfloor>
      in if x - of_int f < 1 / 2 then f
         else if 1 / 2 < x - of_int f then f + 1
         else if even f then f else f + 1)"

text \<open>The exponent \<open>e\<close> of a positive \<open>x\<close>: \<open>2 ^ e \<le> x < 2 ^ (e + 1)\<close>.\<close>

definition float_exponent :: "rat \<Rightarrow> int" where
  "float_exponent x = (if 1 \<le> x then bitlen \<lfloor>x\<rfloor> - 1 else - bitlen (\<lceil>1 / x\<rceil> - 1))"

definition float_quantum :: "rat \<Rightarrow> rat" where
  "float_quantum x = 2 powi (max (float_exponent x) (- 1022) - 52)"

definition float_round :: "rat \<Rightarrow> rat" where
  "float_round x =
     (if x = 0 then 0
      else sgn x * (float_quantum \<bar>x\<bar> * of_int (round_half_even (\<bar>x\<bar> / float_quantum \<bar>x\<bar>))))"

definition fadd :: "rat \<Rightarrow> rat \<Rightarrow> rat" where
  "fadd x y = float_round (x + y)"

text \<open>
  The loops of \<^verbatim>\<open>main\<close> with the sums of lines 343, 344 and 355 rounded. Nothing else
  differs from \<open>voice_over_loop\<close>, \<open>compose_slide\<close>, \<open>slides_loop\<close> and \<open>compose\<close>, which
  add exactly. The comparison of line 346 is exact in Python as well.
\<close>

fun float_voice_over_loop :: "world \<Rightarrow> VoiceOver list \<Rightarrow> voice_over_state \<Rightarrow> error + voice_over_state" where
  "float_voice_over_loop w [] st = Inr st"
| "float_voice_over_loop w (voice_over # rest) (video_clips, audio_clips, slide_duration, caption_start) =
     (case as_audio_clip w voice_over AUDIO_ROOT of
        Inl e \<Rightarrow> Inl e
      | Inr audio_clip \<Rightarrow>
          let voice_over_duration = ac_duration audio_clip;
              audio_clips = audio_clips @ [audio_clip\<lparr>ac_start := caption_start\<rparr>];
              caption_clip =
                set_duration voice_over_duration (set_start caption_start (as_caption voice_over));
              video_clips = video_clips @ [caption_clip]
          in float_voice_over_loop w rest
               (video_clips, audio_clips, fadd slide_duration voice_over_duration,
                fadd caption_start voice_over_duration))"

definition float_compose_slide :: "world \<Rightarrow> slide_state \<Rightarrow> slide \<Rightarrow> error + slide_state" where
  "float_compose_slide w st slide =
     (case st of (video_clips, audio_clips, last_clip_end) \<Rightarrow>
        (case float_voice_over_loop w (voice_overs slide)
                (video_clips, audio_clips, 0, last_clip_end) of
           Inl e \<Rightarrow> Inl e
         | Inr (video_clips, audio_clips, slide_duration, caption_start) \<Rightarrow>
             let slide_duration = floor_duration (min_duration slide) slide_duration
             in (case as_clip w slide of
                   Inl e \<Rightarrow> Inl e
                 | Inr maybe_slide_clip \<Rightarrow>
                     let video_clips =
                           (case maybe_slide_clip of
                              None \<Rightarrow> video_clips
                            | Some c \<Rightarrow>
                                video_clips
                                  @ [set_start last_clip_end (set_duration slide_duration c)])
                     in Inr (video_clips, audio_clips, fadd last_clip_end slide_duration))))"

fun float_slides_loop :: "world \<Rightarrow> slide_state \<Rightarrow> slide list \<Rightarrow> error + slide_state" where
  "float_slides_loop w st [] = Inr st"
| "float_slides_loop w st (slide # rest) =
     (case float_compose_slide w st slide of
        Inl e \<Rightarrow> Inl e
      | Inr st' \<Rightarrow> float_slides_loop w st' rest)"

definition float_compose :: "world \<Rightarrow> (string \<times> Character) list \<Rightarrow> slide list \<Rightarrow> error + composite" where
  "float_compose w characters slides =
     (case float_slides_loop w ([], [], 0) slides of
        Inl e \<Rightarrow> Inl e
      | Inr (video_clips, audio_clips, last_clip_end) \<Rightarrow>
          (case characters_loop w last_clip_end
                  (caption_background last_clip_end # video_clips) (map snd characters) of
             Inl e \<Rightarrow> Inl e
           | Inr video_clips \<Rightarrow>
               Inr \<lparr>cvc_clips = video_clips, cvc_audio = audio_clips,
                    cvc_duration = last_clip_end\<rparr>))"

section \<open>The rows of a request\<close>

text \<open>
  A voice-over is a cache miss when its audio file is not on the disk; its request row
  is the key, the voice and the payload.
\<close>

definition cache_miss :: "world \<Rightarrow> VoiceOver \<Rightarrow> bool" where
  "cache_miss w vo = (audio_files w (get_filepath vo AUDIO_ROOT) = None)"

definition request_row :: "VoiceOver \<Rightarrow> string list" where
  "request_row vo = [filename_base vo, vo_voice vo, saml_text vo]"

section \<open>The slides a script describes\<close>

text \<open>
  The parser as the specification words it. An entry with one of the keys \<^verbatim>\<open>image\<close>,
  \<^verbatim>\<open>text\<close>, \<^verbatim>\<open>code\<close> starts a slide, of the kind of the first of these keys it has; any
  other entry is a voice-over of the character its first key names. \<open>segment k items\<close> is
  the sequence of slides when the current slide has kind \<open>k\<close>: the current slide owns the
  voice-over entries up to the next slide entry, which starts the next slide.
\<close>

definition is_slide_entry :: "entry \<Rightarrow> bool" where
  "is_slide_entry item = (has_key ''image'' item \<or> has_key ''text'' item \<or> has_key ''code'' item)"

datatype slide_tag = Empty_tag | Image_tag | Text_tag | Code_tag

fun variant_tag :: "slide_variant \<Rightarrow> slide_tag" where
  "variant_tag EmptySlide = Empty_tag"
| "variant_tag (ImageSlide _ _ _) = Image_tag"
| "variant_tag (TextSlide _ _) = Text_tag"
| "variant_tag (CodeSlide _ _) = Code_tag"

definition entry_tag :: "entry \<Rightarrow> slide_tag" where
  "entry_tag item =
     (if has_key ''image'' item then Image_tag
      else if has_key ''text'' item then Text_tag
      else Code_tag)"

definition entry_key :: "entry \<Rightarrow> string option" where
  "entry_key item = (case item of [] \<Rightarrow> None | (key, _) # _ \<Rightarrow> Some key)"

definition leading :: "entry list \<Rightarrow> entry list" where
  "leading items = takeWhile (\<lambda>item. \<not> is_slide_entry item) items"

function segment :: "slide_tag \<Rightarrow> entry list \<Rightarrow> (slide_tag \<times> entry list) list" where
  "segment k items =
     (k, leading items)
       # (case dropWhile (\<lambda>item. \<not> is_slide_entry item) items of
            [] \<Rightarrow> []
          | item # rest \<Rightarrow> segment (entry_tag item) rest)"
  by pat_completeness auto
termination
proof (relation "measure (\<lambda>(k, items). length items)")
  show "wf (measure (\<lambda>(k, items). length items))" by simp
next
  fix k :: slide_tag and items :: "entry list" and item rest
  assume "dropWhile (\<lambda>item. \<not> is_slide_entry item) items = item # rest"
  then have "length (item # rest) \<le> length items"
    by (metis length_dropWhile_le)
  then show "((entry_tag item, rest), (k, items)) \<in> measure (\<lambda>(k, items). length items)"
    by simp
qed

declare segment.simps [simp del]

definition abs_slide :: "slide \<Rightarrow> slide_tag \<times> string option list" where
  "abs_slide s = (variant_tag (variant s), map (\<lambda>vo. Some (vo_character vo)) (voice_overs s))"

definition abs_segment :: "slide_tag \<times> entry list \<Rightarrow> slide_tag \<times> string option list" where
  "abs_segment seg = (fst seg, map entry_key (snd seg))"

section \<open>The layers of a timeline\<close>

text \<open>
  The captions among the video clips, told by their kind and position, and the clips of a
  run of voice-overs with the given durations, the first one starting at \<open>t\<close>, each one at
  the exact end of the one before.

  \<open>timed T c\<close> is what the code keeps of the invariant of a layer, for a video clip \<open>c\<close> of
  a timeline of total duration \<open>T\<close>: the clip has a duration, its start and its duration
  are 0 or more, and unless it is a caption its end is \<open>T\<close> or less. The end is the sum of
  the start and the duration as Python computes it, which is the \<^verbatim>\<open>end\<close> that
  \<^verbatim>\<open>set_start\<close> and \<^verbatim>\<open>set_duration\<close> of moviepy give the clip. The exact sum of the two
  doubles can be above \<open>T\<close> by a rounding where the end is not.
\<close>

definition is_caption :: "video_clip \<Rightarrow> bool" where
  "is_caption c =
     (vc_kind c = TextClip \<and> vc_pos c = (of_int caption_left, of_int caption_top))"

definition positive_duration :: "video_clip \<Rightarrow> bool" where
  "positive_duration c = (case vc_duration c of None \<Rightarrow> False | Some d \<Rightarrow> 0 < d)"


definition timed :: "rat \<Rightarrow> video_clip \<Rightarrow> bool" where
  "timed T c =
     (case vc_duration c of
        None \<Rightarrow> False
      | Some d \<Rightarrow> 0 \<le> vc_start c \<and> 0 \<le> d \<and> (is_caption c \<or> fadd (vc_start c) d \<le> T))"

section \<open>Concrete inputs\<close>

text \<open>A disk with one image of the given pixel size and nothing else.\<close>

definition image_world :: "string \<Rightarrow> int \<times> int \<Rightarrow> world" where
  "image_world path sz =
     \<lparr>audio_files = Map.empty, image_files = [path \<mapsto> sz], code_files = Map.empty,
      video_files = Map.empty\<rparr>"

text \<open>
  A script of one spoken line, and backends where \<^verbatim>\<open>mimic3\<close> writes one audio file of
  length 1 for every row and then exits with status 1, while \<^verbatim>\<open>make\<close> succeeds.
\<close>

definition demo_characters :: "(string \<times> Character) list" where
  "demo_characters = [(''A'', \<lparr>ch_image = ''a.png'', ch_voice = ''voice1''\<rparr>)]"

definition one_line_script :: Script where
  "one_line_script =
     \<lparr>script_slides = [[(''A'', YStr ''hi'')]], script_characters = demo_characters\<rparr>"

definition failing_mimic3 :: "string list list \<Rightarrow> world \<Rightarrow> int \<times> world" where
  "failing_mimic3 rows w =
     (1, w\<lparr>audio_files :=
             fold (\<lambda>row files.
                     case row of
                       [] \<Rightarrow> files
                     | stem # _ \<Rightarrow> files(AUDIO_ROOT @ ''/'' @ stem @ ''.wav'' \<mapsto> 1))
               rows (audio_files w)\<rparr>)"

definition failing_backends :: backends where
  "failing_backends = \<lparr>run_mimic3 = failing_mimic3, run_make = (\<lambda>w. (0, w))\<rparr>"

text \<open>
  The scenario of the specification, and a script whose only entry has two keys, both of
  them characters.
\<close>

definition scenario_script :: Script where
  "scenario_script =
     \<lparr>script_slides =
        [[(''A'', YStr ''hi'')], [(''image'', YStr ''x.png'')], [(''A'', YStr ''bye'')]],
      script_characters = demo_characters\<rparr>"

definition two_key_script :: Script where
  "two_key_script =
     \<lparr>script_slides = [[(''A'', YStr ''hi''), (''B'', YStr ''yo'')]],
      script_characters =
        [(''A'', \<lparr>ch_image = ''a.png'', ch_voice = ''voice1''\<rparr>),
         (''B'', \<lparr>ch_image = ''b.png'', ch_voice = ''voice2''\<rparr>)]\<rparr>"

text \<open>
  A text slide with a floor of 5000 on its duration and two voice-overs of 1500 each.
\<close>

definition floor_voice_over :: VoiceOver where
  "floor_voice_over = new_VoiceOver ''A'' ''voice1'' ''hi'' None"

definition floor_slide :: slide where
  "floor_slide =
     \<lparr>variant = TextSlide ''title'' 25, voice_overs = [floor_voice_over, floor_voice_over],
      min_duration = Some 5000\<rparr>"

definition floor_world :: world where
  "floor_world =
     \<lparr>audio_files = [get_filepath floor_voice_over AUDIO_ROOT \<mapsto> 1500],
      image_files = Map.empty, code_files = Map.empty, video_files = Map.empty\<rparr>"

text \<open>
  The double nearest to 0.1, an audio file of that length, and four slides: the empty
  slide every script starts with, a text slide shown for its \<^verbatim>\<open>min_duration\<close> of 1, a text
  slide with two voice-overs and a text slide with none.
\<close>

definition tenth :: rat where
  "tenth = 3602879701896397 / 36028797018963968"

definition rounding_world :: world where
  "rounding_world =
     \<lparr>audio_files = [get_filepath floor_voice_over AUDIO_ROOT \<mapsto> tenth],
      image_files = Map.empty, code_files = Map.empty, video_files = Map.empty\<rparr>"

definition rounding_slides :: "slide list" where
  "rounding_slides =
     [new_EmptySlide,
      \<lparr>variant = TextSlide ''intro'' 25, voice_overs = [], min_duration = Some 1\<rparr>,
      \<lparr>variant = TextSlide ''talk'' 25, voice_overs = [floor_voice_over, floor_voice_over],
       min_duration = None\<rparr>,
      \<lparr>variant = TextSlide ''end'' 25, voice_overs = [], min_duration = None\<rparr>]"

section \<open>The escaped text and the encodings are injective\<close>

lemma replace_append: "replace old new (a @ b) = replace old new a @ replace old new b"
  by (simp add: replace_def)

lemma replace_Nil: "replace old new [] = []"
  by (simp add: replace_def)

lemma replace_Cons: "replace old new (c # s) = (if c = old then new else [c]) @ replace old new s"
  by (simp add: replace_def)

lemma escape_Nil: "escape [] = []"
  by (simp add: escape_def replace_Nil)

lemma escape_Cons: "escape (c # s) = entity_of c @ escape s"
  by (simp add: escape_def entity_of_def replace_Cons replace_append replace_Nil)

lemma escape_entities: "escape s = concat (map entity_of s)"
  by (induction s) (simp_all add: escape_Cons escape_Nil)

lemma entity_of_nonempty: "entity_of c \<noteq> []"
  by (simp add: entity_of_def)

lemma entity_of_prefix_free:
  "entity_of c @ xs = entity_of d @ ys \<Longrightarrow> c = d \<and> xs = ys"
  by (simp add: entity_of_def split: if_splits)

lemma escape_inj: "escape s = escape t \<Longrightarrow> s = t"
proof (induction s arbitrary: t)
  case Nil
  then show ?case by (cases t) (simp_all add: escape_Cons escape_Nil entity_of_nonempty)
next
  case (Cons c s)
  show ?case
  proof (cases t)
    case Nil
    with Cons.prems show ?thesis by (simp add: escape_Cons escape_Nil entity_of_nonempty)
  next
    case (Cons d t')
    with Cons.prems have "entity_of c @ escape s = entity_of d @ escape t'"
      by (simp add: escape_Cons)
    then have "c = d \<and> escape s = escape t'" by (rule entity_of_prefix_free)
    with Cons.IH Cons show ?thesis by simp
  qed
qed

lemma entity_of_no_markup: "CHR ''<'' \<notin> set (entity_of c) \<and> CHR ''>'' \<notin> set (entity_of c)"
  by (simp add: entity_of_def)

lemma escape_no_markup: "CHR ''<'' \<notin> set (escape s) \<and> CHR ''>'' \<notin> set (escape s)"
  by (simp add: escape_entities entity_of_no_markup)

lemma of_char_lt: "(of_char c :: nat) < 256"
proof -
  have "(of_char c :: nat) mod 256 = of_char c" by (rule of_char_mod_256)
  moreover have "(of_char c :: nat) mod 256 < 256" by simp
  ultimately show ?thesis by simp
qed

lemma byte_of_nat_inj: "m < 256 \<Longrightarrow> n < 256 \<Longrightarrow> (of_nat m :: byte) = of_nat n \<Longrightarrow> m = n"
  by (simp add: word_of_nat_eq_iff take_bit_nat_eq_self)

lemma encode_utf8_char_nonempty: "encode_utf8_char c \<noteq> []"
  by (simp add: encode_utf8_char_def Let_def)

lemma encode_utf8_char_prefix_free:
  assumes eq: "encode_utf8_char c @ xs = encode_utf8_char d @ ys"
  shows "c = d \<and> xs = ys"
proof -
  define n where "n = (of_char c :: nat)"
  define m where "m = (of_char d :: nat)"
  have n: "n < 256" and m: "m < 256" by (simp_all add: n_def m_def of_char_lt)
  have enc_n: "encode_utf8_char c =
      (if n < 128 then [of_nat n] else [of_nat (192 + n div 64), of_nat (128 + n mod 64)])"
    by (simp add: encode_utf8_char_def Let_def n_def)
  have enc_m: "encode_utf8_char d =
      (if m < 128 then [of_nat m] else [of_nat (192 + m div 64), of_nat (128 + m mod 64)])"
    by (simp add: encode_utf8_char_def Let_def m_def)
  have hi_n: "192 + n div 64 < 256" and hi_m: "192 + m div 64 < 256" using n m by auto
  have lo_n: "128 + n mod 64 < 256" and lo_m: "128 + m mod 64 < 256" by auto
  have "n = m \<and> xs = ys"
  proof (cases "n < 128")
    case True
    note n128 = this
    show ?thesis
    proof (cases "m < 128")
      case True
      with n128 eq enc_n enc_m have "(of_nat n :: byte) = of_nat m" and "xs = ys" by simp_all
      with n m byte_of_nat_inj show ?thesis by blast
    next
      case False
      with n128 eq enc_n enc_m have "(of_nat n :: byte) = of_nat (192 + m div 64)" by simp
      with n hi_m byte_of_nat_inj have "n = 192 + m div 64" by blast
      with n128 show ?thesis by simp
    qed
  next
    case False
    note n128 = this
    show ?thesis
    proof (cases "m < 128")
      case True
      with n128 eq enc_n enc_m have "(of_nat (192 + n div 64) :: byte) = of_nat m" by simp
      with m hi_n byte_of_nat_inj have "192 + n div 64 = m" by blast
      with True show ?thesis by simp
    next
      case False
      with n128 eq enc_n enc_m have
        a: "(of_nat (192 + n div 64) :: byte) = of_nat (192 + m div 64)" and
        b: "(of_nat (128 + n mod 64) :: byte) = of_nat (128 + m mod 64)" and "xs = ys"
        by simp_all
      from a hi_n hi_m byte_of_nat_inj have "192 + n div 64 = 192 + m div 64" by blast
      moreover from b lo_n lo_m byte_of_nat_inj have "128 + n mod 64 = 128 + m mod 64" by blast
      ultimately have "n div 64 = m div 64" and "n mod 64 = m mod 64" by simp_all
      then have "n = m" by (metis div_mult_mod_eq)
      with \<open>xs = ys\<close> show ?thesis by simp
    qed
  qed
  then show ?thesis by (simp add: n_def m_def)
qed

lemma encode_utf8_Nil: "encode_utf8 [] = []"
  by (simp add: encode_utf8_def)

lemma encode_utf8_Cons: "encode_utf8 (c # s) = encode_utf8_char c @ encode_utf8 s"
  by (simp add: encode_utf8_def)

lemma encode_utf8_append: "encode_utf8 (a @ b) = encode_utf8 a @ encode_utf8 b"
  by (simp add: encode_utf8_def)

lemma encode_utf8_inj: "encode_utf8 s = encode_utf8 t \<Longrightarrow> s = t"
proof (induction s arbitrary: t)
  case Nil
  then show ?case by (cases t) (simp_all add: encode_utf8_Nil encode_utf8_Cons encode_utf8_char_nonempty)
next
  case (Cons c s)
  show ?case
  proof (cases t)
    case Nil
    with Cons.prems show ?thesis
      by (simp add: encode_utf8_Nil encode_utf8_Cons encode_utf8_char_nonempty)
  next
    case (Cons d t')
    with Cons.prems have "encode_utf8_char c @ encode_utf8 s = encode_utf8_char d @ encode_utf8 t'"
      by (simp add: encode_utf8_Cons)
    then have "c = d \<and> encode_utf8 s = encode_utf8 t'" by (rule encode_utf8_char_prefix_free)
    with Cons.IH Cons show ?thesis by simp
  qed
qed

lemma encode_utf8_eq_iff: "(encode_utf8 a = encode_utf8 b) = (a = b)"
  using encode_utf8_inj by blast

lemma escape_eq_iff: "(escape a = escape b) = (a = b)"
  using escape_inj by blast

lemma saml_text_shape:
  "\<exists>pre mid post. \<forall>vo. saml_text vo = pre @ escape (clean_text vo) @ mid @ vo_end_pause vo @ post"
proof -
  have "\<forall>vo. saml_text vo =
      ''<speak>'' @ escape (clean_text vo) @ (''<break time='' @ [CHR 0x27]) @ vo_end_pause vo
        @ ([CHR 0x27] @ ''/></speak>'')"
    by (simp add: saml_text_def)
  then show ?thesis by blast
qed

lemma clean_text_new: "clean_text (new_VoiceOver c v t p) = replace (CHR 0x0A) '' '' (strip t)"
  by (simp add: clean_text_def new_VoiceOver_def validate_text_def)

lemma filename_bytes_new:
  "filename_bytes (new_VoiceOver c v t p) =
     encode_utf8 c @ encode_utf8 ''|'' @ encode_utf8 v @ encode_utf8 ''|''
       @ encode_utf8 (saml_text (new_VoiceOver c v t p))"
  by (simp add: filename_bytes_def new_VoiceOver_def)

lemma saml_text_new_indep:
  "saml_text (new_VoiceOver c v t p) = saml_text (new_VoiceOver c' v' t p)"
  by (simp add: saml_text_def clean_text_def new_VoiceOver_def)

text \<open>
  C10. The payload for the speech backend is \<^verbatim>\<open><speak>\<close>, then the clean text with each of
  \<^verbatim>\<open>&\<close>, \<^verbatim>\<open><\<close> and \<^verbatim>\<open>>\<close> replaced by its entity reference, then the \<^verbatim>\<open>break\<close> element with the
  pause and the closing tag. The escaped text holds no angle bracket, and a voice-over
  built without a pause has the pause \<^verbatim>\<open>500ms\<close>.
\<close>

theorem saml_text_payload:
  "saml_text vo =
     ''<speak>'' @ concat (map entity_of (clean_text vo)) @ ''<break time='' @ [CHR 0x27]
       @ vo_end_pause vo @ [CHR 0x27] @ ''/></speak>''
   \<and> CHR ''<'' \<notin> set (concat (map entity_of (clean_text vo)))
   \<and> CHR ''>'' \<notin> set (concat (map entity_of (clean_text vo)))
   \<and> vo_end_pause (new_VoiceOver c v t None) = ''500ms''"
proof -
  have "saml_text vo =
     ''<speak>'' @ concat (map entity_of (clean_text vo)) @ ''<break time='' @ [CHR 0x27]
       @ vo_end_pause vo @ [CHR 0x27] @ ''/></speak>''"
    by (simp add: saml_text_def escape_entities)
  moreover have "CHR ''<'' \<notin> set (concat (map entity_of (clean_text vo)))"
    and "CHR ''>'' \<notin> set (concat (map entity_of (clean_text vo)))"
    using escape_no_markup [of "clean_text vo"] by (simp_all add: escape_entities)
  moreover have "vo_end_pause (new_VoiceOver c v t None) = ''500ms''"
    by (simp add: new_VoiceOver_def)
  ultimately show ?thesis by blast
qed

text \<open>
  C3, as the code has it. The key is the SHA-1 digest of the bytes of character, voice and
  payload, joined by \<^verbatim>\<open>|\<close>. With the other fields fixed, these bytes change whenever the
  character, the voice or a given pause changes; they change with the text exactly when
  the stripped text with its line breaks turned to spaces changes.
\<close>

theorem filename_base_fields:
  "filename_base vo = sha1_hexdigest (filename_bytes vo)
   \<and> (filename_bytes (new_VoiceOver c v t p) = filename_bytes (new_VoiceOver c' v t p)) = (c = c')
   \<and> (filename_bytes (new_VoiceOver c v t p) = filename_bytes (new_VoiceOver c v' t p)) = (v = v')
   \<and> (filename_bytes (new_VoiceOver c v t (Some e)) = filename_bytes (new_VoiceOver c v t (Some e')))
        = (e = e')
   \<and> (filename_bytes (new_VoiceOver c v t p) = filename_bytes (new_VoiceOver c v t' p))
        = (replace (CHR 0x0A) '' '' (strip t) = replace (CHR 0x0A) '' '' (strip t'))"
proof -
  obtain pre mid post where
    shape: "\<And>vo. saml_text vo = pre @ escape (clean_text vo) @ mid @ vo_end_pause vo @ post"
    using saml_text_shape by blast
  have pause: "\<And>q. vo_end_pause (new_VoiceOver c v t (Some q)) = q"
    and pause_t: "vo_end_pause (new_VoiceOver c v t' p) = vo_end_pause (new_VoiceOver c v t p)"
    by (simp_all add: new_VoiceOver_def)
  have 1: "filename_base vo = sha1_hexdigest (filename_bytes vo)"
    by (simp add: filename_base_def)
  have 2: "(filename_bytes (new_VoiceOver c v t p) = filename_bytes (new_VoiceOver c' v t p)) = (c = c')"
    by (simp add: filename_bytes_new saml_text_new_indep [of c' v t p c v] encode_utf8_eq_iff)
  have 3: "(filename_bytes (new_VoiceOver c v t p) = filename_bytes (new_VoiceOver c v' t p)) = (v = v')"
    by (simp add: filename_bytes_new saml_text_new_indep [of c v' t p c v] encode_utf8_eq_iff)
  have 4: "(filename_bytes (new_VoiceOver c v t (Some e)) = filename_bytes (new_VoiceOver c v t (Some e')))
        = (e = e')"
    by (simp add: filename_bytes_new encode_utf8_eq_iff shape clean_text_new pause)
  have 5: "(filename_bytes (new_VoiceOver c v t p) = filename_bytes (new_VoiceOver c v t' p))
        = (replace (CHR 0x0A) '' '' (strip t) = replace (CHR 0x0A) '' '' (strip t'))"
    by (simp add: filename_bytes_new encode_utf8_eq_iff shape clean_text_new pause_t escape_eq_iff)
  from 1 2 3 4 5 show ?thesis by blast
qed

text \<open>
  C3 as stated fails: the validator strips the text, so two texts that differ in a
  trailing space give the same voice-over and the same key.
\<close>

theorem filename_base_text_counterexample:
  "''hi '' \<noteq> ''hi''
   \<and> filename_base (new_VoiceOver ''A'' ''v'' ''hi '' None)
       = filename_base (new_VoiceOver ''A'' ''v'' ''hi'' None)"
proof -
  have "new_VoiceOver ''A'' ''v'' ''hi '' None = new_VoiceOver ''A'' ''v'' ''hi'' None"
    by (simp add: new_VoiceOver_def validate_text_def strip_def isspace_def)
  then show ?thesis by simp
qed

section \<open>Fitting an image into a frame\<close>

lemma fit_size_shrink:
  assumes pos: "0 < iw" "0 < ih" "0 < fw" "0 < fh"
    and big: "iw > fw \<or> ih > fh"
  shows "fit_size iw ih fw fh ztf None =
           Inr (of_int iw / max (of_int iw / of_int fw) (of_int ih / of_int fh),
                of_int ih / max (of_int iw / of_int fw) (of_int ih / of_int fh))"
proof (cases "(of_int iw :: rat) / of_int fw > of_int ih / of_int fh")
  case True
  then have "max ((of_int iw :: rat) / of_int fw) (of_int ih / of_int fh) = of_int iw / of_int fw"
    by simp
  with True pos big show ?thesis
    by (simp add: fit_size_def field_simps)
next
  case False
  then have "max ((of_int iw :: rat) / of_int fw) (of_int ih / of_int fh) = of_int ih / of_int fh"
    by simp
  with False pos big show ?thesis
    by (simp add: fit_size_def field_simps)
qed

lemma shrink_inside:
  assumes pos: "0 < iw" "0 < ih" "0 < fw" "0 < fh"
    and big: "iw > fw \<or> ih > fh"
  shows "(of_int iw :: rat) / max (of_int iw / of_int fw) (of_int ih / of_int fh) \<le> of_int fw"
    and "(of_int ih :: rat) / max (of_int iw / of_int fw) (of_int ih / of_int fh) \<le> of_int fh"
proof -
  let ?a = "(of_int iw :: rat) / of_int fw" and ?b = "(of_int ih :: rat) / of_int fh"
  have m: "0 < max ?a ?b" using pos by (simp add: less_max_iff_disj)
  have "of_int iw = ?a * of_int fw" using pos by simp
  also have "\<dots> \<le> max ?a ?b * of_int fw" using pos by (intro mult_right_mono) simp_all
  finally show "(of_int iw :: rat) / max ?a ?b \<le> of_int fw"
    using m by (simp add: pos_divide_le_eq mult.commute)
  have "of_int ih = ?b * of_int fh" using pos by simp
  also have "\<dots> \<le> max ?a ?b * of_int fh" using pos by (intro mult_right_mono) simp_all
  finally show "(of_int ih :: rat) / max ?a ?b \<le> of_int fh"
    using m by (simp add: pos_divide_le_eq mult.commute)
qed

text \<open>
  C9. With no fixed zoom, an image larger than the frame in some dimension is divided by
  the larger of the two ratios image/frame: the aspect ratio is kept, the result lies
  inside the frame and is centred in it on both axes.
\<close>

theorem fit_shrinks_into_frame:
  assumes img: "image_files w path = Some (iw, ih)"
    and pos: "0 < iw" "0 < ih" "0 < fw" "0 < fh"
    and big: "iw > fw \<or> ih > fh"
  shows "\<exists>width height.
           fit w path fx fy fw fh ztf None =
             Inr \<lparr>vc_kind = ImageClip, vc_source = path, vc_size = (width, height),
                  vc_pos = (of_int fx + (of_int fw - width) / 2,
                            of_int fy + (of_int fh - height) / 2),
                  vc_start = 0, vc_duration = None\<rparr>
           \<and> width = of_int iw / max (of_int iw / of_int fw) (of_int ih / of_int fh)
           \<and> height = of_int ih / max (of_int iw / of_int fw) (of_int ih / of_int fh)
           \<and> width \<le> of_int fw \<and> height \<le> of_int fh"
  using fit_size_shrink [OF pos big, of ztf] shrink_inside [OF pos big] img
  by (simp add: fit_def)

text \<open>
  C9, the instance of the specification: an image of 800 by 300 in a frame of 400 by 300
  at the origin becomes 400 by 150, 75 below the top of the frame.
\<close>

theorem fit_shrinks_into_frame_witness:
  "fit (image_world ''x.png'' (800, 300)) ''x.png'' 0 0 400 300 False None =
     Inr \<lparr>vc_kind = ImageClip, vc_source = ''x.png'', vc_size = (400, 150),
          vc_pos = (0, 75), vc_start = 0, vc_duration = None\<rparr>"
  using fit_shrinks_into_frame [of "image_world ''x.png'' (800, 300)" "''x.png''" 800 300 400 300 0 0 False]
  by (simp add: image_world_def)

text \<open>
  C2. With \<^verbatim>\<open>zoom_to_fit\<close> an image of 100 by 100 in a frame of 400 by 300 is enlarged by 4,
  the larger of the two ratios frame/image, not by 3: the result is 400 by 400 and stands
  50 above the frame and 50 below it.
\<close>

theorem fit_zoom_to_fit_exceeds_frame:
  "fit (image_world ''x.png'' (100, 100)) ''x.png'' 0 0 400 300 True None =
     Inr \<lparr>vc_kind = ImageClip, vc_source = ''x.png'', vc_size = (400, 400),
          vc_pos = (0, - 50), vc_start = 0, vc_duration = None\<rparr>"
  by (simp add: fit_def fit_size_def image_world_def)

section \<open>The request to the speech backend\<close>

lemma write_audio_request_row:
  "write_audio_request w vo writer AUDIO_ROOT =
     (if cache_miss w vo then writer @ [request_row vo] else writer)"
  by (simp add: write_audio_request_def cache_miss_def request_row_def Let_def)

lemma fold_write_audio_request:
  "fold (\<lambda>voice_over writer. write_audio_request w voice_over writer AUDIO_ROOT) vos writer =
     writer @ map request_row (filter (cache_miss w) vos)"
  by (induction vos arbitrary: writer) (simp_all add: write_audio_request_row)

lemma fold_slides_requests:
  "fold (\<lambda>slide writer.
           fold (\<lambda>voice_over writer. write_audio_request w voice_over writer AUDIO_ROOT)
             (voice_overs slide) writer) slides writer =
     writer @ map request_row (filter (cache_miss w) (concat (map voice_overs slides)))"
  by (induction slides arbitrary: writer) (simp_all add: fold_write_audio_request)

lemma audio_requests_eq:
  "audio_requests w slides =
     map request_row (filter (cache_miss w) (concat (map voice_overs slides)))"
  by (simp add: audio_requests_def fold_slides_requests)

text \<open>
  C7. \<^verbatim>\<open>write_audio_request\<close> adds a row only when the audio file of the voice-over is
  missing; the rows of the request are those of the cache misses, in the order of the
  voice-overs, each with the key first; and \<^verbatim>\<open>mimic3\<close> is run, on exactly these rows, only
  when there is a cache miss: otherwise \<^verbatim>\<open>generate_audio\<close> returns with the files untouched.
\<close>

theorem generate_audio_requests_cache_misses:
  "write_audio_request w vo writer AUDIO_ROOT =
     (if cache_miss w vo then writer @ [[filename_base vo, vo_voice vo, saml_text vo]] else writer)
   \<and> audio_requests w slides =
       map (\<lambda>vo. [filename_base vo, vo_voice vo, saml_text vo])
         (filter (cache_miss w) (concat (map voice_overs slides)))
   \<and> generate_audio env w slides =
       (if filter (cache_miss w) (concat (map voice_overs slides)) = [] then Inr w
        else subprocess_run False (run_mimic3 env (audio_requests w slides) w))"
  using audio_requests_eq [of w slides]
  by (simp add: write_audio_request_row request_row_def generate_audio_def Let_def)

section \<open>A failing speech backend\<close>

lemma parse_one_line:
  "parse_slides one_line_script =
     Inr [\<lparr>variant = EmptySlide, voice_overs = [new_VoiceOver ''A'' ''voice1'' ''hi'' None],
          min_duration = None\<rparr>]"
  by (simp add: parse_slides_def one_line_script_def demo_characters_def parse_item_def has_key_def
      str_field_def append_voice_over_def new_EmptySlide_def)

text \<open>
  C4. \<^verbatim>\<open>generate_audio\<close> runs \<^verbatim>\<open>mimic3\<close> without \<^verbatim>\<open>check=True\<close> and never raises. With a
  backend that exits with status 1, the run of the one-line script goes on through
  \<^verbatim>\<open>make\<close> and the timeline, and writes the video.
\<close>

theorem main_survives_failed_synthesis:
  "(\<forall>e. generate_audio env w slides \<noteq> Inl e)
   \<and> fst (run_mimic3 failing_backends rows w) = 1
   \<and> (\<exists>w'. main failing_backends (image_world ''a.png'' (96, 96)) one_line_script ''out.mp4'' = Inr w'
          \<and> map_option cvc_duration (video_files w' ''out.mp4'') = Some 1)"
proof -
  have 1: "fst (run_mimic3 failing_backends rows w) = 1"
    by (simp add: failing_backends_def failing_mimic3_def)
  define vo where "vo = new_VoiceOver ''A'' ''voice1'' ''hi'' None"
  define w0 where "w0 = image_world ''a.png'' (96, 96)"
  define w1 where "w1 = w0\<lparr>audio_files := [get_filepath vo AUDIO_ROOT \<mapsto> 1]\<rparr>"
  have p: "parse_slides one_line_script =
      Inr [\<lparr>variant = EmptySlide, voice_overs = [vo], min_duration = None\<rparr>]"
    by (simp add: parse_one_line vo_def)
  have g: "generate_audio failing_backends w0
      [\<lparr>variant = EmptySlide, voice_overs = [vo], min_duration = None\<rparr>] = Inr w1"
    by (simp add: generate_audio_def audio_requests_def write_audio_request_def Let_def
        w0_def w1_def image_world_def failing_backends_def failing_mimic3_def subprocess_run_def
        get_filepath_def)
  have m: "subprocess_run True (run_make failing_backends
      (fold prepare [\<lparr>variant = EmptySlide, voice_overs = [vo], min_duration = None\<rparr>] w1)) = Inr w1"
    by (simp add: subprocess_run_def failing_backends_def prepare_def)
  have c: "\<exists>cvc. compose w1 (script_characters one_line_script)
      [\<lparr>variant = EmptySlide, voice_overs = [vo], min_duration = None\<rparr>] = Inr cvc
      \<and> cvc_duration cvc = 1"
    by (simp add: compose_def compose_slide_def as_audio_clip_def Let_def floor_duration_def
        as_clip_def one_line_script_def demo_characters_def fit_def fit_size_def w1_def w0_def
        image_world_def left_character_height_def left_character_width_def anchors_height_def)
  from p g m c have "\<exists>w'. main failing_backends w0 one_line_script ''out.mp4'' = Inr w'
      \<and> map_option cvc_duration (video_files w' ''out.mp4'') = Some 1"
    by (auto simp add: main_def)
  moreover have "\<forall>e. generate_audio env w slides \<noteq> Inl e"
    by (simp add: generate_audio_def subprocess_run_def Let_def)
  ultimately show ?thesis using 1 by (simp add: w0_def)
qed

section \<open>The parser\<close>

lemma segment_Nil: "segment k [] = [(k, [])]"
  by (simp add: segment.simps [of k "[]"] leading_def)

lemma segment_slide:
  "is_slide_entry item \<Longrightarrow> segment k (item # items) = (k, []) # segment (entry_tag item) items"
  by (simp add: segment.simps [of k "item # items"] leading_def)

lemma segment_voice:
  "\<not> is_slide_entry item \<Longrightarrow>
     segment k (item # items) = (k, item # leading items) # tl (segment k items)"
  by (simp add: segment.simps [of k "item # items"] segment.simps [of k items] leading_def)

lemma segment_hd: "hd (segment k items) = (k, leading items)"
  by (simp add: segment.simps [of k items])

lemma segment_eq: "segment k items = (k, leading items) # tl (segment k items)"
  by (simp add: segment.simps [of k items])

lemma SlideBase_parse_obj_Inr:
  "SlideBase_parse_obj v item = Inr s \<Longrightarrow> variant s = v \<and> voice_overs s = []"
  by (auto simp: SlideBase_parse_obj_def split: if_splits sum.splits)

lemma ImageSlide_parse_obj_Inr:
  "ImageSlide_parse_obj item = Inr s \<Longrightarrow> variant_tag (variant s) = Image_tag \<and> voice_overs s = []"
  by (auto simp: ImageSlide_parse_obj_def split: sum.splits dest!: SlideBase_parse_obj_Inr)

lemma TextSlide_parse_obj_Inr:
  "TextSlide_parse_obj item = Inr s \<Longrightarrow> variant_tag (variant s) = Text_tag \<and> voice_overs s = []"
  by (auto simp: TextSlide_parse_obj_def split: sum.splits dest!: SlideBase_parse_obj_Inr)

lemma CodeSlide_parse_obj_Inr:
  "CodeSlide_parse_obj item = Inr s \<Longrightarrow> variant_tag (variant s) = Code_tag \<and> voice_overs s = []"
  by (auto simp: CodeSlide_parse_obj_def split: sum.splits dest!: SlideBase_parse_obj_Inr)

lemma parse_item_slide:
  assumes "is_slide_entry item" and "parse_item chars (S, c) item = Inr st'"
  shows "\<exists>s. st' = (S @ [s], length S) \<and> variant_tag (variant s) = entry_tag item
           \<and> voice_overs s = []"
  using assms
  by (auto simp: parse_item_def is_slide_entry_def entry_tag_def start_slide_def
      split: if_splits sum.splits
      dest: ImageSlide_parse_obj_Inr TextSlide_parse_obj_Inr CodeSlide_parse_obj_Inr)

lemma parse_item_voice:
  assumes "\<not> is_slide_entry item" and "parse_item chars st item = Inr st'"
  shows "\<exists>vo. st' = append_voice_over st vo \<and> Some (vo_character vo) = entry_key item"
proof -
  have c: "\<And>k v t. vo_character (new_VoiceOver k v t None) = k"
    by (simp add: new_VoiceOver_def)
  from assms show ?thesis
    by (auto simp: parse_item_def is_slide_entry_def entry_key_def
        split: if_splits sum.splits list.splits option.splits) (metis c)
qed

lemma append_voice_over_last:
  "S \<noteq> [] \<Longrightarrow>
     append_voice_over (S, length S - 1) vo =
       (butlast S @ [(last S)\<lparr>voice_overs := voice_overs (last S) @ [vo]\<rparr>], length S - 1)"
proof -
  assume "S \<noteq> []"
  then obtain B l where S: "S = B @ [l]" by (metis append_butlast_last_id)
  then show ?thesis by (simp add: append_voice_over_def)
qed

lemma parse_loop_abs:
  assumes "parse_loop chars (S, length S - 1) items = Inr (S', c')" and "S \<noteq> []"
  shows "S' \<noteq> [] \<and>
         map abs_slide S' =
           map abs_slide (butlast S)
             @ (fst (abs_slide (last S)),
                snd (abs_slide (last S)) @ map entry_key (leading items))
             # map abs_segment (tl (segment (fst (abs_slide (last S))) items))"
  using assms
proof (induction items arbitrary: S)
  case Nil
  then have "S' = S" by simp
  moreover from Nil.prems(2) obtain B l where "S = B @ [l]" by (metis append_butlast_last_id)
  ultimately show ?case
    by (simp add: segment_Nil leading_def)
next
  case (Cons item items)
  from Cons.prems(1) obtain st1 where
    st1: "parse_item chars (S, length S - 1) item = Inr st1"
    and rest: "parse_loop chars st1 items = Inr (S', c')"
    by (auto split: sum.splits)
  from Cons.prems(2) obtain B l where Bl: "S = B @ [l]" by (metis append_butlast_last_id)
  show ?case
  proof (cases "is_slide_entry item")
    case True
    from parse_item_slide [OF True st1] obtain s where
      s: "st1 = (S @ [s], length S)" "variant_tag (variant s) = entry_tag item" "voice_overs s = []"
      by blast
    have as: "abs_slide s = (entry_tag item, [])"
      using s by (simp add: abs_slide_def)
    from rest s have "parse_loop chars (S @ [s], length (S @ [s]) - 1) items = Inr (S', c')"
      by simp
    from Cons.IH [OF this] have ih:
      "S' \<noteq> [] \<and>
       map abs_slide S' =
         map abs_slide S
           @ (entry_tag item, map entry_key (leading items))
           # map abs_segment (tl (segment (entry_tag item) items))"
      by (simp add: as)
    have lead: "leading (item # items) = []" using True by (simp add: leading_def)
    have seg: "map abs_segment (segment (entry_tag item) items) =
        (entry_tag item, map entry_key (leading items))
          # map abs_segment (tl (segment (entry_tag item) items))"
      by (subst segment_eq) (simp add: abs_segment_def)
    from ih show ?thesis
      by (simp add: segment_slide [OF True] lead seg Bl)
  next
    case False
    from parse_item_voice [OF False st1] obtain vo where
      vo: "st1 = append_voice_over (S, length S - 1) vo" "Some (vo_character vo) = entry_key item"
      by blast
    define l1 where "l1 = l\<lparr>voice_overs := voice_overs l @ [vo]\<rparr>"
    have st1': "st1 = (B @ [l1], length (B @ [l1]) - 1)"
      using vo(1) by (simp add: Bl append_voice_over_def l1_def)
    have al: "abs_slide l1 = (fst (abs_slide l), snd (abs_slide l) @ [entry_key item])"
      using vo(2) by (simp add: abs_slide_def l1_def)
    from rest st1' have "parse_loop chars (B @ [l1], length (B @ [l1]) - 1) items = Inr (S', c')"
      by simp
    from Cons.IH [OF this] have ih:
      "S' \<noteq> [] \<and>
       map abs_slide S' =
         map abs_slide B
           @ (fst (abs_slide l), snd (abs_slide l) @ entry_key item # map entry_key (leading items))
           # map abs_segment (tl (segment (fst (abs_slide l)) items))"
      by (simp add: al)
    have lead: "leading (item # items) = item # leading items"
      using False by (simp add: leading_def)
    from ih show ?thesis
      by (simp add: segment_voice [OF False] lead Bl)
  qed
qed

lemma variant_tag_Empty: "(variant_tag v = Empty_tag) = (v = EmptySlide)"
  by (cases v) simp_all

text \<open>
  C6. When the parser returns, the first slide is an empty slide; the slides are, in kind
  and in the characters of their voice-overs, the segments of the script: every entry
  with a reserved key starts a slide of the kind of the first of \<^verbatim>\<open>image\<close>, \<^verbatim>\<open>text\<close>, \<^verbatim>\<open>code\<close>
  it has, and every voice-over entry goes to the slide started last. In particular the
  voice-over entries before the first slide entry all belong to the first, empty slide.
\<close>

theorem parse_slides_segments:
  assumes "parse_slides \<lparr>script_slides = items, script_characters = chars\<rparr> = Inr slides"
  shows "slides \<noteq> [] \<and> variant (hd slides) = EmptySlide
         \<and> map abs_slide slides = map abs_segment (segment Empty_tag items)
         \<and> map (\<lambda>vo. Some (vo_character vo)) (voice_overs (hd slides))
             = map entry_key (takeWhile (\<lambda>item. \<not> is_slide_entry item) items)"
proof -
  from assms obtain c where
    loop: "parse_loop chars ([new_EmptySlide], length [new_EmptySlide] - 1) items = Inr (slides, c)"
    by (cases "parse_loop chars ([new_EmptySlide], 0) items") (auto simp: parse_slides_def)
  have e: "abs_slide new_EmptySlide = (Empty_tag, [])"
    by (simp add: abs_slide_def new_EmptySlide_def)
  from parse_loop_abs [OF loop] have ne: "slides \<noteq> []"
    and m: "map abs_slide slides =
        (Empty_tag, map entry_key (leading items)) # map abs_segment (tl (segment Empty_tag items))"
    by (simp_all add: e)
  have seg: "map abs_segment (segment Empty_tag items) =
      (Empty_tag, map entry_key (leading items)) # map abs_segment (tl (segment Empty_tag items))"
    by (subst segment_eq) (simp add: abs_segment_def)
  from ne obtain s rest where sl: "slides = s # rest" by (cases slides) auto
  with m have "abs_slide s = (Empty_tag, map entry_key (leading items))" by simp
  then have "variant s = EmptySlide"
    and "map (\<lambda>vo. Some (vo_character vo)) (voice_overs s) = map entry_key (leading items)"
    by (simp_all add: abs_slide_def variant_tag_Empty)
  with ne m seg sl show ?thesis by (simp add: leading_def)
qed

lemma parse_scenario:
  "parse_slides scenario_script =
     Inr [\<lparr>variant = EmptySlide, voice_overs = [new_VoiceOver ''A'' ''voice1'' ''hi'' None],
           min_duration = None\<rparr>,
          \<lparr>variant = ImageSlide ''x.png'' None False,
           voice_overs = [new_VoiceOver ''A'' ''voice1'' ''bye'' None], min_duration = None\<rparr>]"
  by (simp add: parse_slides_def scenario_script_def demo_characters_def parse_item_def has_key_def
      str_field_def append_voice_over_def new_EmptySlide_def start_slide_def
      ImageSlide_parse_obj_def SlideBase_parse_obj_def opt_int_field_def opt_float_field_def
      bool_field_def)

text \<open>
  C6 on the scenario of the specification: the first line goes to the empty slide, the
  line after the image to the image slide.
\<close>

theorem parse_slides_segments_witness:
  "parse_slides scenario_script =
     Inr [\<lparr>variant = EmptySlide, voice_overs = [new_VoiceOver ''A'' ''voice1'' ''hi'' None],
           min_duration = None\<rparr>,
          \<lparr>variant = ImageSlide ''x.png'' None False,
           voice_overs = [new_VoiceOver ''A'' ''voice1'' ''bye'' None], min_duration = None\<rparr>]
   \<and> map abs_segment (segment Empty_tag (script_slides scenario_script))
       = [(Empty_tag, [Some ''A'']), (Image_tag, [Some ''A''])]"
proof -
  define items where
    "items = [[(''A'', YStr ''hi'')], [(''image'', YStr ''x.png'')], [(''A'', YStr ''bye'')]]"
  define s1 where
    "s1 = \<lparr>variant = EmptySlide, voice_overs = [new_VoiceOver ''A'' ''voice1'' ''hi'' None],
           min_duration = None\<rparr>"
  define s2 where
    "s2 = \<lparr>variant = ImageSlide ''x.png'' None False,
           voice_overs = [new_VoiceOver ''A'' ''voice1'' ''bye'' None], min_duration = None\<rparr>"
  have ss: "script_slides scenario_script = items"
    by (simp add: scenario_script_def items_def)
  have p: "parse_slides \<lparr>script_slides = items, script_characters = demo_characters\<rparr>
      = Inr [s1, s2]"
    using parse_scenario by (simp add: scenario_script_def items_def s1_def s2_def)
  from parse_slides_segments [OF p]
  have "map abs_slide [s1, s2] = map abs_segment (segment Empty_tag items)" by blast
  then have "map abs_segment (segment Empty_tag items) = map abs_slide [s1, s2]" by (rule sym)
  also have "\<dots> = [(Empty_tag, [Some ''A'']), (Image_tag, [Some ''A''])]"
    by (simp add: abs_slide_def s1_def s2_def new_VoiceOver_def)
  finally have "map abs_segment (segment Empty_tag (script_slides scenario_script))
      = [(Empty_tag, [Some ''A'']), (Image_tag, [Some ''A''])]"
    unfolding ss .
  with parse_scenario show ?thesis by (rule conjI)
qed

lemma parse_loop_append:
  "parse_loop chars st (a @ b) =
     (case parse_loop chars st a of Inl e \<Rightarrow> Inl e | Inr st' \<Rightarrow> parse_loop chars st' b)"
  by (induction a arbitrary: st) (simp_all split: sum.splits)

text \<open>
  C5, as the code has it. After entries that parse, an empty mapping raises
  \<^verbatim>\<open>IndexError\<close>, and an entry with no reserved key whose first key is not a character
  raises \<^verbatim>\<open>KeyError\<close> with that key; both errors leave \<^verbatim>\<open>main\<close>. An entry with no reserved
  key whose first key is a character is a voice-over of that character, whatever other
  keys it has.
\<close>

theorem parse_slides_errors:
  assumes pre: "parse_loop chars ([new_EmptySlide], 0) pre = Inr st"
  shows "parse_slides \<lparr>script_slides = pre @ [] # post, script_characters = chars\<rparr> = Inl IndexError
         \<and> main env w \<lparr>script_slides = pre @ [] # post, script_characters = chars\<rparr> out
             = Inl IndexError
         \<and> (\<not> is_slide_entry ((key, val) # others) \<and> map_of chars key = None \<longrightarrow>
              parse_slides
                \<lparr>script_slides = pre @ ((key, val) # others) # post, script_characters = chars\<rparr>
                = Inl (KeyError key)
              \<and> main env w
                  \<lparr>script_slides = pre @ ((key, val) # others) # post, script_characters = chars\<rparr> out
                  = Inl (KeyError key))
         \<and> (\<not> is_slide_entry ((key', YStr t) # others') \<and> map_of chars key' = Some ch \<longrightarrow>
              parse_loop chars ([new_EmptySlide], 0) (pre @ [(key', YStr t) # others'])
                = Inr (append_voice_over st (new_VoiceOver key' (ch_voice ch) t None)))"
proof -
  have 1: "parse_slides \<lparr>script_slides = pre @ [] # post, script_characters = chars\<rparr> = Inl IndexError"
    using pre by (simp add: parse_slides_def parse_loop_append parse_item_def has_key_def)
  then have 2: "main env w \<lparr>script_slides = pre @ [] # post, script_characters = chars\<rparr> out
             = Inl IndexError"
    by (simp add: main_def)
  have 3: "parse_slides
             \<lparr>script_slides = pre @ ((key, val) # others) # post, script_characters = chars\<rparr>
             = Inl (KeyError key)"
    if "\<not> is_slide_entry ((key, val) # others)" "map_of chars key = None"
    using pre that by (simp add: parse_slides_def parse_loop_append parse_item_def is_slide_entry_def)
  have 4: "main env w
             \<lparr>script_slides = pre @ ((key, val) # others) # post, script_characters = chars\<rparr> out
             = Inl (KeyError key)"
    if "\<not> is_slide_entry ((key, val) # others)" "map_of chars key = None"
    using 3 [OF that] by (simp add: main_def)
  have 5: "parse_loop chars ([new_EmptySlide], 0) (pre @ [(key', YStr t) # others'])
             = Inr (append_voice_over st (new_VoiceOver key' (ch_voice ch) t None))"
    if "\<not> is_slide_entry ((key', YStr t) # others')" "map_of chars key' = Some ch"
    using pre that by (simp add: parse_loop_append parse_item_def is_slide_entry_def str_field_def)
  from 1 2 3 4 5 show ?thesis by blast
qed

text \<open>C5 at a script with a second entry that is empty, unknown, or has two keys.\<close>

theorem parse_slides_errors_witness:
  "parse_slides
     \<lparr>script_slides = [[(''A'', YStr ''hi'')], []], script_characters = demo_characters\<rparr>
     = Inl IndexError
   \<and> parse_slides
       \<lparr>script_slides = [[(''A'', YStr ''hi'')], [(''B'', YStr ''yo'')]],
        script_characters = demo_characters\<rparr>
       = Inl (KeyError ''B'')
   \<and> main failing_backends (image_world ''a.png'' (96, 96))
       \<lparr>script_slides = [[(''A'', YStr ''hi'')], [(''B'', YStr ''yo'')]],
        script_characters = demo_characters\<rparr> ''out.mp4''
       = Inl (KeyError ''B'')
   \<and> parse_loop demo_characters ([new_EmptySlide], 0)
       [[(''A'', YStr ''hi'')], [(''A'', YStr ''bye''), (''B'', YStr ''yo'')]]
       = Inr ([new_EmptySlide
                \<lparr>voice_overs := [new_VoiceOver ''A'' ''voice1'' ''hi'' None,
                                  new_VoiceOver ''A'' ''voice1'' ''bye'' None]\<rparr>], 0)"
proof -
  define st where
    "st = ([new_EmptySlide\<lparr>voice_overs := [new_VoiceOver ''A'' ''voice1'' ''hi'' None]\<rparr>], 0 :: nat)"
  have pre: "parse_loop demo_characters ([new_EmptySlide], 0) [[(''A'', YStr ''hi'')]] = Inr st"
    by (simp add: st_def demo_characters_def parse_item_def has_key_def str_field_def
        append_voice_over_def new_EmptySlide_def)
  have a: "\<not> is_slide_entry [(''B'', YStr ''yo'')]"
    and b: "map_of demo_characters ''B'' = None"
    and c: "\<not> is_slide_entry [(''A'', YStr ''bye''), (''B'', YStr ''yo'')]"
    and d: "map_of demo_characters ''A'' = Some \<lparr>ch_image = ''a.png'', ch_voice = ''voice1''\<rparr>"
    by (simp_all add: is_slide_entry_def has_key_def demo_characters_def)
  have e: "append_voice_over st (new_VoiceOver ''A'' ''voice1'' ''bye'' None) =
      ([new_EmptySlide
         \<lparr>voice_overs := [new_VoiceOver ''A'' ''voice1'' ''hi'' None,
                           new_VoiceOver ''A'' ''voice1'' ''bye'' None]\<rparr>], 0)"
    by (simp add: st_def append_voice_over_def new_EmptySlide_def)
  from parse_slides_errors [OF pre, of "[]" failing_backends "image_world ''a.png'' (96, 96)"
      "''out.mp4''" "''B''" "YStr ''yo''" "[]" "''A''" "''bye''" "[(''B'', YStr ''yo'')]"
      "\<lparr>ch_image = ''a.png'', ch_voice = ''voice1''\<rparr>"] a b c d e
  show ?thesis by simp
qed

text \<open>
  C5 as stated fails: an entry with two keys, neither of them reserved, is not rejected.
  It is read as a voice-over of its first key.
\<close>

theorem parse_slides_two_keys_counterexample:
  "parse_slides two_key_script =
     Inr [\<lparr>variant = EmptySlide, voice_overs = [new_VoiceOver ''A'' ''voice1'' ''hi'' None],
           min_duration = None\<rparr>]"
  by (simp add: parse_slides_def two_key_script_def parse_item_def has_key_def
      str_field_def append_voice_over_def new_EmptySlide_def)

section \<open>The clips of one slide\<close>








section \<open>Rounding to a double\<close>

text \<open>
  \<open>float_exponent\<close> is the exponent of the binade of a positive number. Rounding is
  monotone, keeps a number that is 0 or more at 0 or more, and leaves a double as it is.
  \<open>float_round_eq\<close> gives the double nearest to a number from its binade and the mantissa.
\<close>

lemma round_half_even_of_int: "round_half_even (of_int n) = n"
  by (simp add: round_half_even_def)

lemma round_half_even_floor: "\<lfloor>x\<rfloor> \<le> round_half_even x \<and> round_half_even x \<le> \<lfloor>x\<rfloor> + 1"
  by (simp add: round_half_even_def Let_def)

lemma round_half_even_mono:
  assumes "x \<le> y"
  shows "round_half_even x \<le> round_half_even y"
proof (cases "\<lfloor>x\<rfloor> = \<lfloor>y\<rfloor>")
  case True
  with assms have "x - of_int \<lfloor>y\<rfloor> \<le> y - of_int \<lfloor>y\<rfloor>" by simp
  with True show ?thesis
    by (auto simp: round_half_even_def Let_def)
next
  case False
  with assms have "\<lfloor>x\<rfloor> < \<lfloor>y\<rfloor>" by (simp add: floor_mono order.strict_iff_order)
  with round_half_even_floor [of x] round_half_even_floor [of y] show ?thesis by linarith
qed

lemma round_half_even_ge: "of_int a \<le> x \<Longrightarrow> a \<le> round_half_even x"
  using round_half_even_mono [of "of_int a" x] by (simp add: round_half_even_of_int)

lemma round_half_even_le: "x \<le> of_int b \<Longrightarrow> round_half_even x \<le> b"
  using round_half_even_mono [of x "of_int b"] by (simp add: round_half_even_of_int)

lemma bitlen_pos: "0 < n \<Longrightarrow> 1 \<le> bitlen n"
  using bitlen_eq_zero_iff [of n] bitlen_nonneg [of n] by linarith

lemma float_exponent_bounds:
  assumes "0 < x"
  shows "2 powi float_exponent x \<le> x \<and> x < 2 powi (float_exponent x + 1)"
proof (cases "1 \<le> x")
  case True
  define n where "n = \<lfloor>x\<rfloor>"
  define b where "b = bitlen n"
  from True have n: "0 < n" by (simp add: n_def)
  from bitlen_pos [OF n] have b: "1 \<le> b" by (simp add: b_def)
  from bitlen_bounds [OF n] have bd: "2 ^ nat (b - 1) \<le> n" "n < 2 ^ nat b"
    by (simp_all add: b_def)
  have e: "float_exponent x = b - 1" using True by (simp add: float_exponent_def n_def b_def)
  have p1: "(2::rat) powi (b - 1) = 2 ^ nat (b - 1)" and p2: "(2::rat) powi (b - 1 + 1) = 2 ^ nat b"
    using b by (simp_all add: power_int_def)
  have "(2::rat) ^ nat (b - 1) \<le> of_int n"
    using bd(1) by (metis of_int_le_iff of_int_numeral of_int_power)
  also have "\<dots> \<le> x" by (simp add: n_def)
  finally have lo: "(2::rat) ^ nat (b - 1) \<le> x" .
  have "n + 1 \<le> 2 ^ nat b" using bd(2) by simp
  then have "(of_int (n + 1) :: rat) \<le> 2 ^ nat b"
    by (metis of_int_le_iff of_int_numeral of_int_power)
  moreover have "x < of_int (n + 1)" unfolding n_def by linarith
  ultimately have hi: "x < (2::rat) ^ nat b" by linarith
  from lo hi show ?thesis by (simp only: e p1 p2)
next
  case False
  define u where "u = 1 / x"
  define n where "n = \<lceil>u\<rceil> - 1"
  define b where "b = bitlen n"
  from False assms have u: "1 < u" by (simp add: u_def)
  then have "1 < \<lceil>u\<rceil>" by (simp add: less_ceiling_iff)
  then have n: "0 < n" by (simp add: n_def)
  from bitlen_pos [OF n] have b: "1 \<le> b" by (simp add: b_def)
  from bitlen_bounds [OF n] have bd: "2 ^ nat (b - 1) \<le> n" "n < 2 ^ nat b"
    by (simp_all add: b_def)
  have e: "float_exponent x = - b" using False by (simp add: float_exponent_def n_def b_def u_def)
  have nu: "of_int n < u" "u \<le> of_int (n + 1)"
    unfolding n_def by (linarith, simp)
  have "n + 1 \<le> 2 ^ nat b" using bd(2) by simp
  then have "(of_int (n + 1) :: rat) \<le> 2 ^ nat b"
    by (metis of_int_le_iff of_int_numeral of_int_power)
  with nu(2) have u_hi: "u \<le> 2 ^ nat b" by linarith
  have "(2::rat) ^ nat (b - 1) \<le> of_int n"
    using bd(1) by (metis of_int_le_iff of_int_numeral of_int_power)
  with nu(1) have u_lo: "(2::rat) ^ nat (b - 1) < u" by linarith
  have x: "x = 1 / u" using assms by (simp add: u_def)
  have p1: "(2::rat) powi (- b) = 1 / 2 ^ nat b"
    and p2: "(2::rat) powi (- b + 1) = 1 / 2 ^ nat (b - 1)"
    using b by (simp_all add: power_int_def field_simps nat_diff_distrib)
  have lo: "1 / 2 ^ nat b \<le> x"
    using u_hi u unfolding x by (simp add: frac_le)
  have hi: "x < 1 / 2 ^ nat (b - 1)"
    using u_lo unfolding x by (simp add: frac_less2)
  from lo hi show ?thesis by (simp only: e p1 p2)
qed

lemma two_powi_less: "(2::rat) powi a < 2 powi b \<Longrightarrow> a < b"
  using power_int_increasing [of b a "2::rat"] by (cases "a < b") simp_all

lemma float_exponent_unique:
  assumes "0 < x" and "2 powi e \<le> x" and "x < 2 powi (e + 1)"
  shows "float_exponent x = e"
proof -
  let ?f = "float_exponent x"
  from float_exponent_bounds [OF assms(1)] have f: "2 powi ?f \<le> x" "x < 2 powi (?f + 1)"
    by simp_all
  have "(2::rat) powi e < 2 powi (?f + 1)" using assms(2) f(2) by linarith
  then have 1: "e < ?f + 1" by (rule two_powi_less)
  have "(2::rat) powi ?f < 2 powi (e + 1)" using assms(3) f(1) by linarith
  then have 2: "?f < e + 1" by (rule two_powi_less)
  from 1 2 show ?thesis by simp
qed

lemma float_quantum_pos: "0 < float_quantum x"
  by (simp add: float_quantum_def)

lemma float_round_pos_eq:
  "0 < x \<Longrightarrow> float_round x = float_quantum x * of_int (round_half_even (x / float_quantum x))"
  by (simp add: float_round_def)

lemma quantum_scale:
  "(2::rat) powi (E + 1) = 2 powi (E - 52) * 2 powi 53" "(2::rat) powi E = 2 powi (E - 52) * 2 powi 52"
proof -
  have a: "E + 1 = (E - 52) + 53" and b: "E = (E - 52) + 52" by simp_all
  show "(2::rat) powi (E + 1) = 2 powi (E - 52) * 2 powi 53"
    by (subst a, subst power_int_add) simp_all
  show "(2::rat) powi E = 2 powi (E - 52) * 2 powi 52"
    by (subst b, subst power_int_add) simp_all
qed

lemma scaled_bounds:
  fixes q x :: rat and m :: int
  assumes "0 < q"
  shows "x < q * of_int m \<Longrightarrow> round_half_even (x / q) \<le> m"
    and "q * of_int m \<le> x \<Longrightarrow> m \<le> round_half_even (x / q)"
proof -
  assume "x < q * of_int m"
  then have "x / q \<le> of_int m" using assms by (simp add: pos_divide_le_eq mult.commute)
  then show "round_half_even (x / q) \<le> m" by (rule round_half_even_le)
next
  assume "q * of_int m \<le> x"
  then have "of_int m \<le> x / q" using assms by (simp add: pos_le_divide_eq mult.commute)
  then show "m \<le> round_half_even (x / q)" by (rule round_half_even_ge)
qed

lemma two_powi_int: "0 \<le> n \<Longrightarrow> (2::rat) powi n = of_int (2 ^ nat n)"
  by (simp add: power_int_def)

lemma float_round_upper:
  assumes "0 < x"
  shows "round_half_even (x / float_quantum x) \<le> 2 ^ 53"
    and "float_round x \<le> 2 powi (max (float_exponent x) (- 1022) + 1)"
proof -
  define E where "E = max (float_exponent x) (- 1022)"
  define q where "q = float_quantum x"
  define M where "M = (2::int) ^ 53"
  have M: "(2::rat) powi 53 = of_int M"
    unfolding M_def by (simp only: power_int_numeral of_int_power of_int_numeral)
  have q: "q = 2 powi (E - 52)" by (simp add: q_def E_def float_quantum_def)
  have qp: "0 < q" by (simp add: q_def float_quantum_pos)
  have top: "(2::rat) powi (E + 1) = q * of_int M"
    using quantum_scale(1) [of E] by (simp only: q M)
  from float_exponent_bounds [OF assms] have "x < 2 powi (float_exponent x + 1)" by simp
  also have "\<dots> \<le> 2 powi (E + 1)" by (intro power_int_increasing) (simp_all add: E_def)
  finally have "x < q * of_int M" by (simp only: top)
  from scaled_bounds(1) [OF qp this] have k: "round_half_even (x / q) \<le> M" .
  then show "round_half_even (x / float_quantum x) \<le> 2 ^ 53" by (simp only: q_def M_def)
  from k have "(of_int (round_half_even (x / q)) :: rat) \<le> of_int M"
    by (simp only: of_int_le_iff)
  then have "q * of_int (round_half_even (x / q)) \<le> q * of_int M"
    using qp by (intro mult_left_mono) simp_all
  moreover have "float_round x = q * of_int (round_half_even (x / q))"
    unfolding q_def by (rule float_round_pos_eq [OF assms])
  ultimately have "float_round x \<le> 2 powi (E + 1)"
    by (simp only: top)
  then show "float_round x \<le> 2 powi (max (float_exponent x) (- 1022) + 1)"
    by (simp only: E_def)
qed

lemma float_round_lower:
  assumes "0 < x" and "- 1022 \<le> float_exponent x"
  shows "2 ^ 52 \<le> round_half_even (x / float_quantum x)"
    and "2 powi float_exponent x \<le> float_round x"
proof -
  define E where "E = float_exponent x"
  define q where "q = float_quantum x"
  define M where "M = (2::int) ^ 52"
  have M: "(2::rat) powi 52 = of_int M"
    unfolding M_def by (simp only: power_int_numeral of_int_power of_int_numeral)
  have "max (float_exponent x) (- 1022) = float_exponent x" using assms(2) by (rule max_absorb1)
  then have q: "q = 2 powi (E - 52)" unfolding q_def float_quantum_def E_def by (rule arg_cong)
  have qp: "0 < q" by (simp add: q_def float_quantum_pos)
  have bot: "(2::rat) powi E = q * of_int M"
    using quantum_scale(2) [of E] by (simp only: q M)
  from float_exponent_bounds [OF assms(1)] have "2 powi E \<le> x" by (simp add: E_def)
  then have "q * of_int M \<le> x" by (simp only: bot)
  from scaled_bounds(2) [OF qp this] have k: "M \<le> round_half_even (x / q)" .
  then show "2 ^ 52 \<le> round_half_even (x / float_quantum x)" by (simp only: q_def M_def)
  from k have "(of_int M :: rat) \<le> of_int (round_half_even (x / q))"
    by (simp only: of_int_le_iff)
  then have "q * of_int M \<le> q * of_int (round_half_even (x / q))"
    using qp by (intro mult_left_mono) simp_all
  moreover have "float_round x = q * of_int (round_half_even (x / q))"
    unfolding q_def by (rule float_round_pos_eq [OF assms(1)])
  ultimately have "2 powi E \<le> float_round x"
    by (simp only: bot)
  then show "2 powi float_exponent x \<le> float_round x"
    by (simp only: E_def)
qed

lemma float_round_nonneg: "0 \<le> x \<Longrightarrow> 0 \<le> float_round x"
proof (cases "x = 0")
  case True
  then show ?thesis by (simp add: float_round_def)
next
  case False
  assume "0 \<le> x"
  with False have x: "0 < x" by simp
  have "float_quantum x * of_int 0 \<le> x" using x by simp
  from scaled_bounds(2) [OF float_quantum_pos this]
  have "0 \<le> round_half_even (x / float_quantum x)" .
  then show ?thesis using float_quantum_pos [of x] by (simp add: float_round_pos_eq [OF x])
qed

lemma float_exponent_mono:
  assumes "0 < a" and "a \<le> b"
  shows "float_exponent a \<le> float_exponent b"
proof -
  from assms have b: "0 < b" by simp
  from float_exponent_bounds [OF assms(1)] float_exponent_bounds [OF b] assms(2)
  have "(2::rat) powi float_exponent a < 2 powi (float_exponent b + 1)" by linarith
  from two_powi_less [OF this] show ?thesis by simp
qed

lemma float_round_mono:
  assumes "0 \<le> a" and "a \<le> b"
  shows "float_round a \<le> float_round b"
proof (cases "a = 0")
  case True
  with assms float_round_nonneg [of b] show ?thesis by (simp add: float_round_def)
next
  case False
  with assms have a: "0 < a" and b: "0 < b" by simp_all
  define Ea where "Ea = max (float_exponent a) (- 1022)"
  define Eb where "Eb = max (float_exponent b) (- 1022)"
  from float_exponent_mono [OF a assms(2)] have le: "Ea \<le> Eb" by (simp add: Ea_def Eb_def)
  show ?thesis
  proof (cases "Ea = Eb")
    case True
    then have q: "float_quantum a = float_quantum b"
      by (simp add: float_quantum_def Ea_def Eb_def)
    have "a / float_quantum b \<le> b / float_quantum b"
      using assms(2) float_quantum_pos [of b] by (simp add: divide_right_mono)
    from round_half_even_mono [OF this]
    have "(of_int (round_half_even (a / float_quantum b)) :: rat)
        \<le> of_int (round_half_even (b / float_quantum b))"
      by (simp only: of_int_le_iff)
    then have "float_quantum b * of_int (round_half_even (a / float_quantum b))
        \<le> float_quantum b * of_int (round_half_even (b / float_quantum b))"
      using float_quantum_pos [of b] by (intro mult_left_mono) simp_all
    then show ?thesis
      by (simp only: float_round_pos_eq [OF a] float_round_pos_eq [OF b] q)
  next
    case False
    with le have lt: "Ea < Eb" by simp
    then have "- 1022 < Eb" by (simp add: Ea_def)
    then have eb: "float_exponent b = Eb" "- 1022 \<le> float_exponent b"
      by (simp_all add: Eb_def max_def split: if_splits)
    from float_round_upper(2) [OF a] have "float_round a \<le> 2 powi (Ea + 1)"
      by (simp only: Ea_def)
    also have "\<dots> \<le> 2 powi Eb" using lt by (intro power_int_increasing) simp_all
    also have "\<dots> \<le> float_round b" using float_round_lower(2) [OF b eb(2)] by (simp only: eb(1))
    finally show ?thesis .
  qed
qed

text \<open>
  A multiple \<open>k\<close> of the quantum of a binade, with \<open>k\<close> of at most 53 bits (and of exactly
  53 bits above the subnormal range), is a double: rounding leaves it as it is.
\<close>

lemma float_round_exact_below:
  assumes k: "0 < k" "k < 2 ^ 53"
    and E: "- 1022 \<le> E"
    and normal: "- 1022 < E \<Longrightarrow> 2 ^ 52 \<le> k"
  shows "float_round (2 powi (E - 52) * of_int k) = 2 powi (E - 52) * of_int k"
proof -
  define q :: rat where "q = 2 powi (E - 52)"
  define y where "y = q * of_int k"
  define hi where "hi = (2::int) ^ 53"
  define lo where "lo = (2::int) ^ 52"
  have hi: "(2::rat) powi 53 = of_int hi"
    unfolding hi_def by (simp only: power_int_numeral of_int_power of_int_numeral)
  have lo: "(2::rat) powi 52 = of_int lo"
    unfolding lo_def by (simp only: power_int_numeral of_int_power of_int_numeral)
  have qp: "0 < q" by (simp add: q_def)
  have y: "0 < y" using qp k(1) by (simp add: y_def)
  have top: "(2::rat) powi (E + 1) = q * of_int hi"
    using quantum_scale(1) [of E] by (simp only: q_def hi)
  have bot: "(2::rat) powi E = q * of_int lo"
    using quantum_scale(2) [of E] by (simp only: q_def lo)
  have "(of_int k :: rat) < of_int hi" using k(2) by (simp only: of_int_less_iff hi_def)
  then have "y < q * of_int hi" using qp by (simp add: y_def)
  then have y_hi: "y < 2 powi (E + 1)" by (simp only: top)
  have Ey: "max (float_exponent y) (- 1022) = E"
  proof (cases "- 1022 < E")
    case True
    from normal [OF True] have "(of_int lo :: rat) \<le> of_int k" by (simp only: of_int_le_iff lo_def)
    then have "q * of_int lo \<le> y" using qp by (simp add: y_def)
    then have "2 powi E \<le> y" by (simp only: bot)
    from float_exponent_unique [OF y this y_hi] True show ?thesis by simp
  next
    case False
    with E have E': "E = - 1022" by simp
    from float_exponent_bounds [OF y] y_hi
    have "(2::rat) powi float_exponent y < 2 powi (E + 1)" by linarith
    from two_powi_less [OF this] show ?thesis by (simp add: E')
  qed
  then have qy: "float_quantum y = q" by (simp add: float_quantum_def q_def)
  have yq: "y / q = of_int k" using qp by (simp add: y_def)
  have "float_round y = q * of_int (round_half_even (y / q))"
    using float_round_pos_eq [OF y] by (simp only: qy)
  also have "\<dots> = q * of_int k" by (simp only: yq round_half_even_of_int)
  finally have "float_round y = y" by (simp only: y_def)
  then show ?thesis by (simp only: y_def q_def)
qed

lemma float_round_exact:
  assumes k: "0 \<le> k" "k \<le> 2 ^ 53"
    and E: "- 1022 \<le> E"
    and normal: "- 1022 < E \<Longrightarrow> 2 ^ 52 \<le> k"
  shows "float_round (2 powi (E - 52) * of_int k) = 2 powi (E - 52) * of_int k"
proof (cases "k = 0")
  case True
  then show ?thesis by (simp add: float_round_def)
next
  case False
  with k(1) have kp: "0 < k" by simp
  show ?thesis
  proof (cases "k = 2 ^ 53")
    case False
    with k(2) have "k < 2 ^ 53" by simp
    from float_round_exact_below [OF kp this E normal] show ?thesis .
  next
    case True
    define lo where "lo = (2::int) ^ 52"
    have lo: "0 < lo" "lo < 2 ^ 53" "2 ^ 52 \<le> lo" by (simp_all add: lo_def)
    have E1: "- 1022 \<le> E + 1" using E by simp
    have k2: "(of_int k :: rat) = 2 * of_int lo" by (simp add: True lo_def)
    have "(2::rat) powi (E + 1 - 52) = 2 powi ((E - 52) + 1)" by (simp add: algebra_simps)
    also have "\<dots> = 2 powi (E - 52) * 2" by (subst power_int_add) simp_all
    finally have "2 powi (E - 52) * of_int k = 2 powi (E + 1 - 52) * (of_int lo :: rat)"
      by (simp add: k2)
    with float_round_exact_below [OF lo(1,2) E1 lo(3)] show ?thesis by simp
  qed
qed

lemma float_round_idem:
  assumes "0 \<le> x"
  shows "float_round (float_round x) = float_round x"
proof (cases "x = 0")
  case True
  then show ?thesis by (simp add: float_round_def)
next
  case False
  with assms have x: "0 < x" by simp
  define E where "E = max (float_exponent x) (- 1022)"
  define k where "k = round_half_even (x / float_quantum x)"
  have fr: "float_round x = 2 powi (E - 52) * of_int k"
    by (simp add: float_round_pos_eq [OF x] k_def E_def float_quantum_def)
  have "0 \<le> float_round x" using assms by (rule float_round_nonneg)
  moreover have "(0::rat) < 2 powi (E - 52)" by simp
  ultimately have k0: "0 \<le> k" by (simp add: fr zero_le_mult_iff)
  have k1: "k \<le> 2 ^ 53" using float_round_upper(1) [OF x] by (simp only: k_def)
  have E: "- 1022 \<le> E" by (simp add: E_def)
  have normal: "2 ^ 52 \<le> k" if "- 1022 < E"
  proof -
    from that have "- 1022 \<le> float_exponent x" by (simp add: E_def max_def split: if_splits)
    from float_round_lower(1) [OF x this] show ?thesis by (simp only: k_def)
  qed
  from float_round_exact [OF k0 k1 E normal] show ?thesis by (simp only: fr)
qed

lemma round_half_even_near:
  assumes "\<bar>x - of_int k\<bar> < 1 / 2"
  shows "round_half_even x = k"
proof (cases "of_int k \<le> x")
  case True
  with assms have "\<lfloor>x\<rfloor> = k" by (intro floor_unique) (simp_all add: abs_less_iff)
  with assms True show ?thesis by (simp add: round_half_even_def Let_def abs_less_iff)
next
  case False
  with assms have "\<lfloor>x\<rfloor> = k - 1" by (intro floor_unique) (simp_all add: abs_less_iff)
  with assms False show ?thesis by (simp add: round_half_even_def Let_def abs_less_iff)
qed

text \<open>
  The double nearest to a positive \<open>x\<close> of the binade \<open>E\<close>, when no other double is as near.
\<close>

lemma float_round_eq:
  assumes lo: "2 powi E \<le> x" and hi: "x < 2 powi (E + 1)" and E: "- 1022 \<le> E"
    and k: "\<bar>x / 2 powi (E - 52) - of_int k\<bar> < 1 / 2"
  shows "float_round x = 2 powi (E - 52) * of_int k"
proof -
  have "(0::rat) < 2 powi E" by simp
  with lo have x: "0 < x" by linarith
  from float_exponent_unique [OF x lo hi] E have "float_quantum x = 2 powi (E - 52)"
    by (simp add: float_quantum_def)
  with round_half_even_near [OF k] show ?thesis
    by (simp only: float_round_pos_eq [OF x])
qed

text \<open>
  The sums that the concrete inputs need, each from its binade and its mantissa. The
  first group are the sums of the slide with a floor of 5000; the second group are Python's
  \<^verbatim>\<open>0 + 0.1\<close>, \<^verbatim>\<open>0.1 + 0.1\<close>, \<^verbatim>\<open>1 + 0.1\<close>, \<^verbatim>\<open>1.1 + 0.1\<close>, \<^verbatim>\<open>1 + 0.2\<close> and \<^verbatim>\<open>1.2 + 0\<close>.
\<close>

lemma fadd_0_0: "fadd 0 0 = 0"
  by (simp add: fadd_def float_round_def)

lemma fadd_small_integers:
  "fadd 0 1 = 1" "fadd 0 1500 = 1500" "fadd 1500 1500 = 3000" "fadd 0 5000 = 5000"
proof -
  have "float_round 1 = 2 powi (0 - 52) * of_int 4503599627370496"
    by (rule float_round_eq) simp_all
  then show "fadd 0 1 = 1" by (simp add: fadd_def)
  have "float_round 1500 = 2 powi (10 - 52) * of_int 6597069766656000"
    by (rule float_round_eq) simp_all
  then show "fadd 0 1500 = 1500" by (simp add: fadd_def)
  have "float_round 3000 = 2 powi (11 - 52) * of_int 6597069766656000"
    by (rule float_round_eq) simp_all
  then show "fadd 1500 1500 = 3000" by (simp add: fadd_def)
  have "float_round 5000 = 2 powi (12 - 52) * of_int 5497558138880000"
    by (rule float_round_eq) simp_all
  then show "fadd 0 5000 = 5000" by (simp add: fadd_def)
qed

lemma fadd_tenths:
  "fadd 0 tenth = tenth"
  "fadd tenth tenth = 3602879701896397 / 18014398509481984"
  "fadd 1 tenth = 2476979795053773 / 2251799813685248"
  "fadd (2476979795053773 / 2251799813685248) tenth = 1351079888211149 / 1125899906842624"
  "fadd 1 (3602879701896397 / 18014398509481984) = 5404319552844595 / 4503599627370496"
  "fadd (5404319552844595 / 4503599627370496) 0 = 5404319552844595 / 4503599627370496"
proof -
  have "float_round (3602879701896397 / 36028797018963968)
      = 2 powi (- 4 - 52) * of_int 7205759403792794"
    by (rule float_round_eq) simp_all
  then show "fadd 0 tenth = tenth" by (simp add: fadd_def tenth_def)
  have "float_round (3602879701896397 / 18014398509481984)
      = 2 powi (- 3 - 52) * of_int 7205759403792794"
    by (rule float_round_eq) simp_all
  then show "fadd tenth tenth = 3602879701896397 / 18014398509481984"
    by (simp add: fadd_def tenth_def)
  have "float_round (1 + 3602879701896397 / 36028797018963968)
      = 2 powi (0 - 52) * of_int 4953959590107546"
    by (rule float_round_eq) simp_all
  then show "fadd 1 tenth = 2476979795053773 / 2251799813685248"
    by (simp add: fadd_def tenth_def)
  have "float_round (2476979795053773 / 2251799813685248 + 3602879701896397 / 36028797018963968)
      = 2 powi (0 - 52) * of_int 5404319552844596"
    by (rule float_round_eq) simp_all
  then show "fadd (2476979795053773 / 2251799813685248) tenth = 1351079888211149 / 1125899906842624"
    by (simp add: fadd_def tenth_def)
  have "float_round (1 + 3602879701896397 / 18014398509481984)
      = 2 powi (0 - 52) * of_int 5404319552844595"
    by (rule float_round_eq) simp_all
  then show "fadd 1 (3602879701896397 / 18014398509481984) = 5404319552844595 / 4503599627370496"
    by (simp add: fadd_def)
  have "float_round (5404319552844595 / 4503599627370496)
      = 2 powi (0 - 52) * of_int 5404319552844595"
    by (rule float_round_eq) simp_all
  then show "fadd (5404319552844595 / 4503599627370496) 0 = 5404319552844595 / 4503599627370496"
    by (simp add: fadd_def)
qed

section \<open>The layers of the composed timeline\<close>

lemma floor_duration_ge: "sd \<le> floor_duration md sd"
  by (simp add: floor_duration_def split: option.splits)

lemma fit_clip: "fit w p x y fw fh z zm = Inr c \<Longrightarrow> vc_kind c = ImageClip \<and> vc_start c = 0"
  by (auto simp: fit_def Let_def split: option.splits sum.splits prod.splits)

lemma caption_anchor: "caption_left \<noteq> slide_left"
  by (simp add: caption_left_def slide_left_def anchors_width_def)

lemma as_clip_not_caption: "as_clip w slide = Inr (Some c) \<Longrightarrow> \<not> is_caption c"
proof (cases "variant slide")
  case EmptySlide
  assume "as_clip w slide = Inr (Some c)"
  with EmptySlide show ?thesis by (simp add: as_clip_def)
next
  case (ImageSlide img zoom ztf)
  assume "as_clip w slide = Inr (Some c)"
  with ImageSlide have "fit w img slide_left slide_top slide_width slide_height ztf zoom = Inr c"
    by (cases "fit w img slide_left slide_top slide_width slide_height ztf zoom")
       (simp_all add: as_clip_def)
  from fit_clip [OF this] show ?thesis by (simp add: is_caption_def)
next
  case (CodeSlide code ext)
  assume a: "as_clip w slide = Inr (Some c)"
  define p where "p = IMAGE_ROOT @ ''/'' @ code_filename_base code ext @ ''.png''"
  from a CodeSlide have "fit w p slide_left slide_top slide_width slide_height False None = Inr c"
    by (cases "fit w p slide_left slide_top slide_width slide_height False None")
       (simp_all add: as_clip_def p_def)
  from fit_clip [OF this] show ?thesis by (simp add: is_caption_def)
next
  case (TextSlide body fs)
  assume "as_clip w slide = Inr (Some c)"
  with TextSlide caption_anchor show ?thesis
    by (auto simp: as_clip_def is_caption_def)
qed

lemma is_caption_timed: "is_caption (set_start t (set_duration d c)) = is_caption c"
  by (simp add: is_caption_def set_start_def set_duration_def)

lemma characters_loop_clips:
  assumes "characters_loop w T V cs = Inr V'"
  shows "\<exists>ps. V' = V @ ps
           \<and> (\<forall>c\<in>set ps. vc_kind c = ImageClip \<and> vc_start c = 0 \<and> vc_duration c = Some T)"
  using assms
proof (induction cs arbitrary: V)
  case Nil
  then show ?case by simp
next
  case (Cons ch cs)
  from Cons.prems obtain c where
    c: "fit w (ch_image ch) left_character_left left_character_top
          left_character_width left_character_height False None = Inr c"
    and rest: "characters_loop w T (V @ [set_duration T c]) cs = Inr V'"
    by (auto split: sum.splits)
  from Cons.IH [OF rest] obtain ps where
    ps: "V' = (V @ [set_duration T c]) @ ps"
      "\<forall>c\<in>set ps. vc_kind c = ImageClip \<and> vc_start c = 0 \<and> vc_duration c = Some T"
    by blast
  from fit_clip [OF c] have "vc_kind (set_duration T c) = ImageClip
      \<and> vc_start (set_duration T c) = 0 \<and> vc_duration (set_duration T c) = Some T"
    by (simp add: set_duration_def)
  with ps show ?case
    by (intro exI [of _ "set_duration T c # ps"]) simp
qed

lemma timed_mono: "timed T c \<Longrightarrow> T \<le> T' \<Longrightarrow> timed T' c"
  by (auto simp: timed_def split: option.splits)

lemma is_caption_as_caption: "is_caption (set_duration d (set_start t (as_caption vo)))"
  by (simp add: is_caption_def set_duration_def set_start_def as_caption_def)

lemma float_voice_over_loop_inv:
  assumes "float_voice_over_loop w vos (V, A, sd, cs) = Inr (V', A', sd', cs')"
    and files: "\<forall>d\<in>ran (audio_files w). 0 \<le> d"
    and "0 \<le> sd" and "0 \<le> cs"
    and "\<forall>c\<in>set V. timed T c"
    and "\<forall>c\<in>set V. is_caption c \<longrightarrow> (\<exists>d\<in>ran (audio_files w). vc_duration c = Some d)"
    and "\<forall>a\<in>set A. 0 \<le> ac_start a \<and> ac_duration a \<in> ran (audio_files w)"
  shows "0 \<le> sd'
         \<and> (\<forall>c\<in>set V'. timed T c)
         \<and> (\<forall>c\<in>set V'. is_caption c \<longrightarrow> (\<exists>d\<in>ran (audio_files w). vc_duration c = Some d))
         \<and> (\<forall>a\<in>set A'. 0 \<le> ac_start a \<and> ac_duration a \<in> ran (audio_files w))"
  using assms
proof (induction vos arbitrary: V A sd cs)
  case Nil
  then show ?case by simp
next
  case (Cons vo vos)
  from Cons.prems(1) obtain d where
    d: "audio_files w (get_filepath vo AUDIO_ROOT) = Some d"
    and rest: "float_voice_over_loop w vos
        (V @ [set_duration d (set_start cs (as_caption vo))],
         A @ [\<lparr>ac_path = get_filepath vo AUDIO_ROOT, ac_start = cs, ac_duration = d\<rparr>],
         fadd sd d, fadd cs d) = Inr (V', A', sd', cs')"
    by (auto simp: as_audio_clip_def Let_def split: option.splits)
  from d have dr: "d \<in> ran (audio_files w)" by (auto simp: ran_def)
  with Cons.prems(2) have d0: "0 \<le> d" by blast
  define c where "c = set_duration d (set_start cs (as_caption vo))"
  have cap: "is_caption c" by (simp add: c_def is_caption_as_caption)
  have cd: "vc_duration c = Some d" "vc_start c = cs"
    by (simp_all add: c_def set_duration_def set_start_def)
  have tc: "timed T c" using cap cd d0 Cons.prems(4) by (simp add: timed_def)
  have sd: "0 \<le> fadd sd d" and cs: "0 \<le> fadd cs d"
    using Cons.prems(3,4) d0 by (simp_all add: fadd_def float_round_nonneg)
  have V: "\<forall>x\<in>set (V @ [c]). timed T x" using Cons.prems(5) tc by simp
  have V2: "\<forall>x\<in>set (V @ [c]). is_caption x \<longrightarrow> (\<exists>d\<in>ran (audio_files w). vc_duration x = Some d)"
    using Cons.prems(6) cd(1) dr by simp
  have A: "\<forall>a\<in>set (A @ [\<lparr>ac_path = get_filepath vo AUDIO_ROOT, ac_start = cs, ac_duration = d\<rparr>]).
      0 \<le> ac_start a \<and> ac_duration a \<in> ran (audio_files w)"
    using Cons.prems(7,4) dr by simp
  from Cons.IH [OF rest [folded c_def] Cons.prems(2) sd cs V V2 A] show ?case .
qed

lemma float_compose_slide_inv:
  assumes step: "float_compose_slide w (V, A, t) slide = Inr (V', A', t')"
    and files: "\<forall>d\<in>ran (audio_files w). 0 \<le> d"
    and t: "0 \<le> t" "float_round t = t"
    and V: "\<forall>c\<in>set V. timed t c"
    and V2: "\<forall>c\<in>set V. is_caption c \<longrightarrow> (\<exists>d\<in>ran (audio_files w). vc_duration c = Some d)"
    and A: "\<forall>a\<in>set A. 0 \<le> ac_start a \<and> ac_duration a \<in> ran (audio_files w)"
  shows "0 \<le> t' \<and> float_round t' = t'
         \<and> (\<forall>c\<in>set V'. timed t' c)
         \<and> (\<forall>c\<in>set V'. is_caption c \<longrightarrow> (\<exists>d\<in>ran (audio_files w). vc_duration c = Some d))
         \<and> (\<forall>a\<in>set A'. 0 \<le> ac_start a \<and> ac_duration a \<in> ran (audio_files w))"
proof -
  from step obtain V1 A1 sd cs m where
    loop: "float_voice_over_loop w (voice_overs slide) (V, A, 0, t) = Inr (V1, A1, sd, cs)"
    and m: "as_clip w slide = Inr m"
    and res: "V' = (case m of None \<Rightarrow> V1
                     | Some c \<Rightarrow> V1 @ [set_start t (set_duration
                                      (floor_duration (min_duration slide) sd) c)])"
      "A' = A1" "t' = fadd t (floor_duration (min_duration slide) sd)"
    by (auto simp: float_compose_slide_def Let_def split: sum.splits)
  define s where "s = floor_duration (min_duration slide) sd"
  have t': "t' = float_round (t + s)" by (simp add: res(3) s_def fadd_def)
  have zero: "(0::rat) \<le> 0" by simp
  have Vt: "\<forall>c\<in>set V. timed t' c" if "t \<le> t'" using V that timed_mono by blast
  have sd0: "0 \<le> sd"
    using float_voice_over_loop_inv [OF loop files zero t(1) V V2 A] by simp
  with floor_duration_ge [of sd "min_duration slide"] have s0: "0 \<le> s" by (simp add: s_def)
  have "float_round t \<le> float_round (t + s)" using t(1) s0 by (intro float_round_mono) simp_all
  then have le: "t \<le> t'" by (simp only: t(2) t')
  have t0: "0 \<le> t'" using le t(1) by simp
  have fp: "float_round t' = t'" unfolding t' using t(1) s0 by (intro float_round_idem) simp
  from float_voice_over_loop_inv [OF loop files zero t(1) Vt [OF le] V2 A] have
    V1: "\<forall>c\<in>set V1. timed t' c"
    and V12: "\<forall>c\<in>set V1. is_caption c \<longrightarrow> (\<exists>d\<in>ran (audio_files w). vc_duration c = Some d)"
    and A1: "\<forall>a\<in>set A1. 0 \<le> ac_start a \<and> ac_duration a \<in> ran (audio_files w)"
    by simp_all
  have vis: "timed t' (set_start t (set_duration s c)) \<and> \<not> is_caption (set_start t (set_duration s c))"
    if "m = Some c" for c
  proof -
    from that m have "as_clip w slide = Inr (Some c)" by simp
    from as_clip_not_caption [OF this] have "\<not> is_caption (set_start t (set_duration s c))"
      by (simp add: is_caption_timed)
    moreover have "timed t' (set_start t (set_duration s c))"
      using t(1) s0 by (simp add: timed_def set_start_def set_duration_def res(3) s_def)
    ultimately show ?thesis by simp
  qed
  have "(\<forall>c\<in>set V'. timed t' c)
      \<and> (\<forall>c\<in>set V'. is_caption c \<longrightarrow> (\<exists>d\<in>ran (audio_files w). vc_duration c = Some d))"
  proof (cases m)
    case None
    with res(1) V1 V12 show ?thesis by simp
  next
    case (Some c)
    with res(1) V1 V12 vis [OF Some] show ?thesis by (auto simp: s_def)
  qed
  with t0 fp A1 res(2) show ?thesis by simp
qed

lemma float_slides_loop_inv:
  assumes "float_slides_loop w (V, A, t) slides = Inr (V', A', t')"
    and "\<forall>d\<in>ran (audio_files w). 0 \<le> d"
    and "0 \<le> t" and "float_round t = t"
    and "\<forall>c\<in>set V. timed t c"
    and "\<forall>c\<in>set V. is_caption c \<longrightarrow> (\<exists>d\<in>ran (audio_files w). vc_duration c = Some d)"
    and "\<forall>a\<in>set A. 0 \<le> ac_start a \<and> ac_duration a \<in> ran (audio_files w)"
  shows "0 \<le> t' \<and> float_round t' = t'
         \<and> (\<forall>c\<in>set V'. timed t' c)
         \<and> (\<forall>c\<in>set V'. is_caption c \<longrightarrow> (\<exists>d\<in>ran (audio_files w). vc_duration c = Some d))
         \<and> (\<forall>a\<in>set A'. 0 \<le> ac_start a \<and> ac_duration a \<in> ran (audio_files w))"
  using assms
proof (induction slides arbitrary: V A t)
  case Nil
  then show ?case by simp
next
  case (Cons slide slides)
  from Cons.prems(1) obtain V1 A1 t1 where
    step: "float_compose_slide w (V, A, t) slide = Inr (V1, A1, t1)"
    and rest: "float_slides_loop w (V1, A1, t1) slides = Inr (V', A', t')"
    by (auto split: sum.splits)
  from float_compose_slide_inv [OF step Cons.prems(2,3,4,5,6,7)] have
    "0 \<le> t1" "float_round t1 = t1" "\<forall>c\<in>set V1. timed t1 c"
    "\<forall>c\<in>set V1. is_caption c \<longrightarrow> (\<exists>d\<in>ran (audio_files w). vc_duration c = Some d)"
    "\<forall>a\<in>set A1. 0 \<le> ac_start a \<and> ac_duration a \<in> ran (audio_files w)"
    by simp_all
  from Cons.IH [OF rest Cons.prems(2) this] show ?case .
qed

text \<open>
  C8, as the code has it, with the sums of \<^verbatim>\<open>main\<close> rounded as Python rounds them, on a
  timeline shorter than \<open>2 ^ 53\<close> seconds, where the loops compute what \<^verbatim>\<open>main\<close> computes.
  When no audio file has a negative length, the total duration, which is the cursor after
  the last slide, is 0 or more; every video clip has a start of 0 or later and a duration
  of 0 or more, and unless it is a caption (so for a slide visual, the background of the
  captions and a portrait) the end that Python computes from its start and its duration
  is the total duration or less; every audio clip has a start of 0 or later and a duration
  of 0 or more. When every audio file has a positive length, the audio clips and the
  captions have a positive duration. Nothing is said of the end of a caption or of an
  audio clip, and nothing of a positive duration of the other clips.
\<close>

theorem float_compose_layers:
  assumes ok: "float_compose w chars slides = Inr cvc"
    and files: "\<forall>d\<in>ran (audio_files w). 0 \<le> d"
    and short: "cvc_duration cvc < 2 ^ 53"
  shows "0 \<le> cvc_duration cvc
         \<and> (\<forall>c\<in>set (cvc_clips cvc). timed (cvc_duration cvc) c)
         \<and> (\<forall>a\<in>set (cvc_audio cvc). 0 \<le> ac_start a \<and> 0 \<le> ac_duration a)
         \<and> ((\<forall>d\<in>ran (audio_files w). 0 < d) \<longrightarrow>
              (\<forall>a\<in>set (cvc_audio cvc). 0 < ac_duration a)
              \<and> (\<forall>c\<in>set (cvc_clips cvc). is_caption c \<longrightarrow> positive_duration c))"
proof -
  from ok obtain V A T V' where
    loop: "float_slides_loop w ([], [], 0) slides = Inr (V, A, T)"
    and chl: "characters_loop w T (caption_background T # V) (map snd chars) = Inr V'"
    and cvc: "cvc = \<lparr>cvc_clips = V', cvc_audio = A, cvc_duration = T\<rparr>"
    by (auto simp: float_compose_def split: sum.splits)
  have z: "(0::rat) \<le> 0" "float_round 0 = 0" by (simp_all add: float_round_def)
  from float_slides_loop_inv [OF loop files z] have
    T: "0 \<le> T" "float_round T = T"
    and V: "\<forall>c\<in>set V. timed T c"
    and V2: "\<forall>c\<in>set V. is_caption c \<longrightarrow> (\<exists>d\<in>ran (audio_files w). vc_duration c = Some d)"
    and A: "\<forall>a\<in>set A. 0 \<le> ac_start a \<and> ac_duration a \<in> ran (audio_files w)"
    by simp_all
  from characters_loop_clips [OF chl] obtain ps where
    ps: "V' = (caption_background T # V) @ ps"
      "\<forall>c\<in>set ps. vc_kind c = ImageClip \<and> vc_start c = 0 \<and> vc_duration c = Some T"
    by blast
  have bg: "timed T (caption_background T)" "\<not> is_caption (caption_background T)"
    using T by (simp_all add: caption_background_def timed_def set_duration_def is_caption_def
        fadd_def)
  have pv: "\<forall>c\<in>set ps. timed T c" "\<forall>c\<in>set ps. \<not> is_caption c"
    using ps(2) T by (auto simp: timed_def is_caption_def fadd_def)
  have all_V: "\<forall>c\<in>set V'. timed T c"
    using V bg(1) pv(1) by (auto simp: ps(1))
  have all_A: "\<forall>a\<in>set A. 0 \<le> ac_start a \<and> 0 \<le> ac_duration a"
    using A files by blast
  have strict: "(\<forall>a\<in>set A. 0 < ac_duration a) \<and> (\<forall>c\<in>set V'. is_caption c \<longrightarrow> positive_duration c)"
    if pos: "\<forall>d\<in>ran (audio_files w). 0 < d"
  proof -
    have "\<forall>a\<in>set A. 0 < ac_duration a" using A pos by blast
    moreover have "\<forall>c\<in>set V. is_caption c \<longrightarrow> positive_duration c"
      using V2 pos by (fastforce simp: positive_duration_def)
    ultimately show ?thesis using bg(2) pv(2) by (auto simp: ps(1))
  qed
  from T(1) all_V all_A strict show ?thesis by (simp add: cvc)
qed

text \<open>
  C8 on an empty slide followed by the text slide with a floor of 5000: four video clips
  and two audio clips, the video clips timed within the 5000 of the timeline.
\<close>

theorem float_compose_layers_witness:
  "\<exists>cvc. float_compose floor_world [] [new_EmptySlide, floor_slide] = Inr cvc
      \<and> cvc_duration cvc = 5000
      \<and> list_all (timed 5000) (cvc_clips cvc)
      \<and> list_all (\<lambda>a. 0 \<le> ac_start a \<and> 0 < ac_duration a) (cvc_audio cvc)
      \<and> length (cvc_clips cvc) = 4 \<and> length (cvc_audio cvc) = 2"
proof -
  obtain cvc where
    ok: "float_compose floor_world [] [new_EmptySlide, floor_slide] = Inr cvc"
    and dur: "cvc_duration cvc = 5000"
    and len: "length (cvc_clips cvc) = 4" "length (cvc_audio cvc) = 2"
    by (simp add: float_compose_def float_compose_slide_def floor_slide_def floor_world_def
        new_EmptySlide_def as_audio_clip_def Let_def as_clip_def floor_duration_def
        fadd_0_0 fadd_small_integers)
  have files: "\<forall>d\<in>ran (audio_files floor_world). 0 \<le> d"
    and strict: "\<forall>d\<in>ran (audio_files floor_world). 0 < d"
    by (simp_all add: floor_world_def)
  have short: "cvc_duration cvc < 2 ^ 53" by (simp add: dur)
  from float_compose_layers [OF ok files short] strict
  have "list_all (timed 5000) (cvc_clips cvc)
      \<and> list_all (\<lambda>a. 0 \<le> ac_start a \<and> 0 < ac_duration a) (cvc_audio cvc)"
    by (simp add: dur list_all_iff)
  with ok dur len show ?thesis by blast
qed

text \<open>
  C8 as stated fails, in two ways, on a text slide shown for 1, a text slide with two
  voice-overs of 0.1 each and a text slide with no voice-over. The last slide has no
  voice-over and no \<^verbatim>\<open>min_duration\<close>, and its clip has the duration 0. And the second
  caption and its audio clip start at 1.1 and last 0.1, so they end at
  1.2000000000000002, the double after 1.2, while the total duration is 1.2: the cursor of
  the captions has added 0.1 to 1 twice, the cursor of the slides has added 0.2 to 1 once.
  The end is after the total duration both as Python adds and as an exact sum. The last
  line is the clip of the second text slide, which starts at 1 and lasts 0.2: its end is
  the total duration as Python adds, and above it as an exact sum, the double 0.2 being
  above a fifth and the double 1.2 below six fifths.
\<close>

theorem float_compose_counterexample:
  "float_compose rounding_world [] rounding_slides =
     Inr \<lparr>cvc_clips =
            [caption_background (5404319552844595 / 4503599627370496),
             \<lparr>vc_kind = TextClip, vc_source = ''intro'', vc_size = (648, 384), vc_pos = (36, 0),
              vc_start = 0, vc_duration = Some 1\<rparr>,
             set_duration tenth (set_start 1 (as_caption floor_voice_over)),
             set_duration tenth
               (set_start (2476979795053773 / 2251799813685248) (as_caption floor_voice_over)),
             \<lparr>vc_kind = TextClip, vc_source = ''talk'', vc_size = (648, 384), vc_pos = (36, 0),
              vc_start = 1, vc_duration = Some (3602879701896397 / 18014398509481984)\<rparr>,
             \<lparr>vc_kind = TextClip, vc_source = ''end'', vc_size = (648, 384), vc_pos = (36, 0),
              vc_start = 5404319552844595 / 4503599627370496, vc_duration = Some 0\<rparr>],
          cvc_audio =
            [\<lparr>ac_path = get_filepath floor_voice_over AUDIO_ROOT, ac_start = 1,
              ac_duration = tenth\<rparr>,
             \<lparr>ac_path = get_filepath floor_voice_over AUDIO_ROOT,
              ac_start = 2476979795053773 / 2251799813685248, ac_duration = tenth\<rparr>],
          cvc_duration = 5404319552844595 / 4503599627370496\<rparr>
   \<and> 5404319552844595 / 4503599627370496 < fadd (2476979795053773 / 2251799813685248) tenth
   \<and> 5404319552844595 / 4503599627370496 < 2476979795053773 / 2251799813685248 + tenth
   \<and> (5404319552844595 / 4503599627370496 :: rat) < 1 + 3602879701896397 / 18014398509481984"
proof -
  have "float_compose rounding_world [] rounding_slides =
     Inr \<lparr>cvc_clips =
            [caption_background (5404319552844595 / 4503599627370496),
             \<lparr>vc_kind = TextClip, vc_source = ''intro'', vc_size = (648, 384), vc_pos = (36, 0),
              vc_start = 0, vc_duration = Some 1\<rparr>,
             set_duration tenth (set_start 1 (as_caption floor_voice_over)),
             set_duration tenth
               (set_start (2476979795053773 / 2251799813685248) (as_caption floor_voice_over)),
             \<lparr>vc_kind = TextClip, vc_source = ''talk'', vc_size = (648, 384), vc_pos = (36, 0),
              vc_start = 1, vc_duration = Some (3602879701896397 / 18014398509481984)\<rparr>,
             \<lparr>vc_kind = TextClip, vc_source = ''end'', vc_size = (648, 384), vc_pos = (36, 0),
              vc_start = 5404319552844595 / 4503599627370496, vc_duration = Some 0\<rparr>],
          cvc_audio =
            [\<lparr>ac_path = get_filepath floor_voice_over AUDIO_ROOT, ac_start = 1,
              ac_duration = tenth\<rparr>,
             \<lparr>ac_path = get_filepath floor_voice_over AUDIO_ROOT,
              ac_start = 2476979795053773 / 2251799813685248, ac_duration = tenth\<rparr>],
          cvc_duration = 5404319552844595 / 4503599627370496\<rparr>"
    by (simp add: float_compose_def float_compose_slide_def rounding_slides_def rounding_world_def
        new_EmptySlide_def as_audio_clip_def Let_def as_clip_def floor_duration_def
        fadd_0_0 fadd_small_integers fadd_tenths set_start_def set_duration_def
        slide_left_def slide_top_def slide_width_def slide_height_def anchors_width_def
        anchors_height_def)
  moreover have "5404319552844595 / 4503599627370496 < fadd (2476979795053773 / 2251799813685248) tenth"
    by (simp add: fadd_tenths)
  moreover have "5404319552844595 / 4503599627370496 < 2476979795053773 / 2251799813685248 + tenth"
    by (simp add: tenth_def)
  moreover have "(5404319552844595 / 4503599627370496 :: rat) < 1 + 3602879701896397 / 18014398509481984"
    by simp
  ultimately show ?thesis by blast
qed

end
